theory Spec2Isabelle
  imports Main "HOL-Library.Word"
begin

section \<open>Strings of the host language\<close>

text \<open>
  A string of the program is a sequence of 16-bit code units. \<open>js\<close> writes a literal
  whose characters are all below 256.
\<close>

type_synonym code_unit = "16 word"
type_synonym js_string = "code_unit list"

definition js :: "string \<Rightarrow> js_string" where
  "js s = map (\<lambda>c. of_nat (of_char c)) s"

text \<open>
  \<open>String.prototype.trim\<close> removes white space and line terminators from both ends:
  TAB, LF, VT, FF, CR, SP, NBSP, the space separators of Unicode, LS, PS and the BOM.
\<close>

definition is_js_space :: "code_unit \<Rightarrow> bool" where
  "is_js_space c \<longleftrightarrow>
     c = 0x09 \<or> c = 0x0A \<or> c = 0x0B \<or> c = 0x0C \<or> c = 0x0D \<or> c = 0x20 \<or> c = 0xA0 \<or>
     c = 0x1680 \<or> (0x2000 \<le> c \<and> c \<le> 0x200A) \<or> c = 0x2028 \<or> c = 0x2029 \<or>
     c = 0x202F \<or> c = 0x205F \<or> c = 0x3000 \<or> c = 0xFEFF"

definition trim :: "js_string \<Rightarrow> js_string" where
  "trim s = rev (dropWhile is_js_space (rev (dropWhile is_js_space s)))"

text \<open>\<open>Array.prototype.join\<close> on an array of strings.\<close>

fun join :: "js_string \<Rightarrow> js_string list \<Rightarrow> js_string" where
  "join sep [] = []"
| "join sep [x] = x"
| "join sep (x # y # ys) = x @ sep @ join sep (y # ys)"

section \<open>JSON values, \<open>JSON.stringify\<close> and \<open>JSON.parse\<close>\<close>

text \<open>
  The values \<open>JSON.parse\<close> can return. A number is kept as the text of its literal (its
  floating-point value is not modelled); an object is the list of its own properties in
  property order.
\<close>

datatype json =
    JNull
  | JBool bool
  | JNum js_string
  | JStr js_string
  | JArr "json list"
  | JObj "(js_string \<times> json) list"

datatype js_error =
    SyntaxError
  | Error js_string
  | ServiceFailure js_string

subsection \<open>Quoting a string\<close>

definition hex_digit :: "nat \<Rightarrow> code_unit" where
  "hex_digit d = (if d < 10 then of_nat (48 + d) else of_nat (87 + d))"

definition unicode_escape :: "code_unit \<Rightarrow> js_string" where
  "unicode_escape c =
     (let n = unat c in
      [0x5C, 0x75, hex_digit (n div 4096), hex_digit (n div 256 mod 16),
       hex_digit (n div 16 mod 16), hex_digit (n mod 16)])"

definition is_lead :: "code_unit \<Rightarrow> bool" where
  "is_lead c \<longleftrightarrow> 0xD800 \<le> c \<and> c \<le> 0xDBFF"

definition is_trail :: "code_unit \<Rightarrow> bool" where
  "is_trail c \<longleftrightarrow> 0xDC00 \<le> c \<and> c \<le> 0xDFFF"

text \<open>One code point that is a single code unit: the short escapes, \<open>\uXXXX\<close> for the
  other control characters and for a lone surrogate, the unit itself otherwise.\<close>

definition quote_unit :: "code_unit \<Rightarrow> js_string" where
  "quote_unit c =
     (if c = 0x08 then [0x5C, 0x62]
      else if c = 0x09 then [0x5C, 0x74]
      else if c = 0x0A then [0x5C, 0x6E]
      else if c = 0x0C then [0x5C, 0x66]
      else if c = 0x0D then [0x5C, 0x72]
      else if c = 0x22 then [0x5C, 0x22]
      else if c = 0x5C then [0x5C, 0x5C]
      else if c < 0x20 \<or> is_lead c \<or> is_trail c then unicode_escape c
      else [c])"

fun quote_units :: "js_string \<Rightarrow> js_string" where
  "quote_units [] = []"
| "quote_units [c] = quote_unit c"
| "quote_units (c # d # ds) =
     (if is_lead c \<and> is_trail d then c # d # quote_units ds
      else quote_unit c @ quote_units (d # ds))"

definition quote :: "js_string \<Rightarrow> js_string" where
  "quote s = 0x22 # quote_units s @ [0x22]"

subsection \<open>\<open>JSON.stringify\<close>\<close>

fun JSON_stringify :: "json \<Rightarrow> js_string" where
  "JSON_stringify JNull = js ''null''"
| "JSON_stringify (JBool b) = (if b then js ''true'' else js ''false'')"
| "JSON_stringify (JNum t) = t"
| "JSON_stringify (JStr s) = quote s"
| "JSON_stringify (JArr vs) = 0x5B # join [0x2C] (map JSON_stringify vs) @ [0x5D]"
| "JSON_stringify (JObj ps) =
     0x7B # join [0x2C] (map (\<lambda>(k, v). quote k @ 0x3A # JSON_stringify v) ps) @ [0x7D]"

subsection \<open>\<open>JSON.parse\<close>\<close>

definition is_json_ws :: "code_unit \<Rightarrow> bool" where
  "is_json_ws c \<longleftrightarrow> c = 0x09 \<or> c = 0x0A \<or> c = 0x0D \<or> c = 0x20"

definition skip_ws :: "js_string \<Rightarrow> js_string" where
  "skip_ws s = dropWhile is_json_ws s"

definition is_digit :: "code_unit \<Rightarrow> bool" where
  "is_digit c \<longleftrightarrow> 0x30 \<le> c \<and> c \<le> 0x39"

definition hex_value :: "code_unit \<Rightarrow> nat option" where
  "hex_value c =
     (if 0x30 \<le> c \<and> c \<le> 0x39 then Some (unat c - 48)
      else if 0x61 \<le> c \<and> c \<le> 0x66 then Some (unat c - 87)
      else if 0x41 \<le> c \<and> c \<le> 0x46 then Some (unat c - 55)
      else None)"

definition hex4 :: "code_unit \<Rightarrow> code_unit \<Rightarrow> code_unit \<Rightarrow> code_unit \<Rightarrow> code_unit option" where
  "hex4 a b c d =
     (case (hex_value a, hex_value b, hex_value c, hex_value d) of
        (Some h3, Some h2, Some h1, Some h0) \<Rightarrow> Some (of_nat (h3 * 4096 + h2 * 256 + h1 * 16 + h0))
      | _ \<Rightarrow> None)"

definition unescape :: "code_unit \<Rightarrow> code_unit option" where
  "unescape e =
     (if e = 0x22 then Some 0x22
      else if e = 0x5C then Some 0x5C
      else if e = 0x2F then Some 0x2F
      else if e = 0x62 then Some 0x08
      else if e = 0x66 then Some 0x0C
      else if e = 0x6E then Some 0x0A
      else if e = 0x72 then Some 0x0D
      else if e = 0x74 then Some 0x09
      else None)"

definition cons_result :: "code_unit \<Rightarrow> (js_string \<times> js_string) option \<Rightarrow> (js_string \<times> js_string) option" where
  "cons_result c r = map_option (\<lambda>(s, rest). (c # s, rest)) r"

text \<open>The characters of a string literal after its opening quote, up to and including
  the closing quote; the result is the string and the rest of the input.\<close>

fun parse_string_body :: "js_string \<Rightarrow> (js_string \<times> js_string) option" where
  "parse_string_body [] = None"
| "parse_string_body (c # cs) =
     (if c = 0x22 then Some ([], cs)
      else if c = 0x5C then
        (case cs of
           [] \<Rightarrow> None
         | e # r \<Rightarrow>
             if e = 0x75 then
               (case r of
                  h3 # h2 # h1 # h0 # r' \<Rightarrow>
                    (case hex4 h3 h2 h1 h0 of
                       None \<Rightarrow> None
                     | Some u \<Rightarrow> cons_result u (parse_string_body r'))
                | _ \<Rightarrow> None)
             else
               (case unescape e of
                  None \<Rightarrow> None
                | Some u \<Rightarrow> cons_result u (parse_string_body r)))
      else if c < 0x20 then None
      else cons_result c (parse_string_body cs))"

text \<open>A number literal: \<open>-? (0 | [1-9][0-9]*) (. [0-9]+)? ([eE] [+-]? [0-9]+)?\<close>.\<close>

definition parse_digits :: "js_string \<Rightarrow> (js_string \<times> js_string) option" where
  "parse_digits s =
     (if takeWhile is_digit s = [] then None
      else Some (takeWhile is_digit s, dropWhile is_digit s))"

definition parse_int :: "js_string \<Rightarrow> (js_string \<times> js_string) option" where
  "parse_int s =
     (case s of
        [] \<Rightarrow> None
      | c # cs \<Rightarrow> if c = 0x30 then Some ([c], cs) else parse_digits s)"

definition parse_frac :: "js_string \<Rightarrow> (js_string \<times> js_string) option" where
  "parse_frac s =
     (case s of
        c # cs \<Rightarrow>
          if c = 0x2E then map_option (\<lambda>(ds, rest). (c # ds, rest)) (parse_digits cs)
          else Some ([], s)
      | [] \<Rightarrow> Some ([], s))"

definition parse_exp :: "js_string \<Rightarrow> (js_string \<times> js_string) option" where
  "parse_exp s =
     (case s of
        c # cs \<Rightarrow>
          if c = 0x65 \<or> c = 0x45 then
            (case cs of
               g # cs' \<Rightarrow>
                 if g = 0x2B \<or> g = 0x2D
                 then map_option (\<lambda>(ds, rest). (c # g # ds, rest)) (parse_digits cs')
                 else map_option (\<lambda>(ds, rest). (c # ds, rest)) (parse_digits cs)
             | [] \<Rightarrow> None)
          else Some ([], s)
      | [] \<Rightarrow> Some ([], s))"

definition parse_number :: "js_string \<Rightarrow> (js_string \<times> js_string) option" where
  "parse_number s =
     (let (sign, s1) = (case s of c # cs \<Rightarrow> if c = 0x2D then ([c], cs) else ([], s) | [] \<Rightarrow> ([], s))
      in case parse_int s1 of
           None \<Rightarrow> None
         | Some (ip, s2) \<Rightarrow>
             (case parse_frac s2 of
                None \<Rightarrow> None
              | Some (fp, s3) \<Rightarrow>
                  (case parse_exp s3 of
                     None \<Rightarrow> None
                   | Some (ep, s4) \<Rightarrow> Some (sign @ ip @ fp @ ep, s4))))"

text \<open>
  Properties of the object under construction. A repeated key overwrites the value and
  keeps its place; a new key that is an array index (a canonical numeral below
  \<open>2^32 - 1\<close>) goes before the string keys, in ascending order; any other new key goes last.
\<close>

definition digits_value :: "js_string \<Rightarrow> int" where
  "digits_value s = foldl (\<lambda>n c. 10 * n + (uint c - 48)) 0 s"

definition array_index :: "js_string \<Rightarrow> int option" where
  "array_index k =
     (if k \<noteq> [] \<and> list_all is_digit k \<and> (hd k \<noteq> 0x30 \<or> length k = 1)
         \<and> length k \<le> 10 \<and> digits_value k < 4294967295
      then Some (digits_value k) else None)"

fun insert_index :: "int \<Rightarrow> js_string \<times> json \<Rightarrow> (js_string \<times> json) list \<Rightarrow> (js_string \<times> json) list" where
  "insert_index i p [] = [p]"
| "insert_index i p (q # qs) =
     (case array_index (fst q) of
        None \<Rightarrow> p # q # qs
      | Some j \<Rightarrow> if i < j then p # q # qs else q # insert_index i p qs)"

definition define_property :: "js_string \<times> json \<Rightarrow> (js_string \<times> json) list \<Rightarrow> (js_string \<times> json) list" where
  "define_property p ps =
     (if fst p \<in> fst ` set ps then map (\<lambda>q. if fst q = fst p then p else q) ps
      else case array_index (fst p) of
             None \<Rightarrow> ps @ [p]
           | Some i \<Rightarrow> insert_index i p ps)"

definition make_object :: "(js_string \<times> json) list \<Rightarrow> json" where
  "make_object ms = JObj (fold define_property ms [])"

text \<open>
  Recursive descent over the text. The first argument bounds the depth of the calls; a
  call consumes a character before it calls again, so the length of the text (plus one)
  is enough.
\<close>

fun parse_value :: "nat \<Rightarrow> js_string \<Rightarrow> (json \<times> js_string) option"
  and parse_elements :: "nat \<Rightarrow> js_string \<Rightarrow> (json list \<times> js_string) option"
  and parse_members :: "nat \<Rightarrow> js_string \<Rightarrow> ((js_string \<times> json) list \<times> js_string) option"
where
  "parse_value 0 s = None"
| "parse_value (Suc n) s =
     (case skip_ws s of
        [] \<Rightarrow> None
      | c # cs \<Rightarrow>
          if c = 0x7B then
            (case skip_ws cs of
               [] \<Rightarrow> None
             | d # ds \<Rightarrow>
                 if d = 0x7D then Some (JObj [], ds)
                 else map_option (\<lambda>(ms, rest). (make_object ms, rest)) (parse_members n cs))
          else if c = 0x5B then
            (case skip_ws cs of
               [] \<Rightarrow> None
             | d # ds \<Rightarrow>
                 if d = 0x5D then Some (JArr [], ds)
                 else map_option (\<lambda>(vs, rest). (JArr vs, rest)) (parse_elements n cs))
          else if c = 0x22 then
            map_option (\<lambda>(t, rest). (JStr t, rest)) (parse_string_body cs)
          else if take 4 (c # cs) = js ''true'' then Some (JBool True, drop 4 (c # cs))
          else if take 5 (c # cs) = js ''false'' then Some (JBool False, drop 5 (c # cs))
          else if take 4 (c # cs) = js ''null'' then Some (JNull, drop 4 (c # cs))
          else map_option (\<lambda>(t, rest). (JNum t, rest)) (parse_number (c # cs)))"
| "parse_elements 0 s = None"
| "parse_elements (Suc n) s =
     (case parse_value n s of
        None \<Rightarrow> None
      | Some (v, r) \<Rightarrow>
          (case skip_ws r of
             [] \<Rightarrow> None
           | c # cs \<Rightarrow>
               if c = 0x2C then map_option (\<lambda>(vs, rest). (v # vs, rest)) (parse_elements n cs)
               else if c = 0x5D then Some ([v], cs)
               else None))"
| "parse_members 0 s = None"
| "parse_members (Suc n) s =
     (case skip_ws s of
        [] \<Rightarrow> None
      | q # qs \<Rightarrow>
          if q \<noteq> 0x22 then None
          else
            (case parse_string_body qs of
               None \<Rightarrow> None
             | Some (k, r) \<Rightarrow>
                 (case skip_ws r of
                    [] \<Rightarrow> None
                  | c # cs \<Rightarrow>
                      if c \<noteq> 0x3A then None
                      else
                        (case parse_value n cs of
                           None \<Rightarrow> None
                         | Some (v, r') \<Rightarrow>
                             (case skip_ws r' of
                                [] \<Rightarrow> None
                              | e # es \<Rightarrow>
                                  if e = 0x2C
                                  then map_option (\<lambda>(ms, rest). ((k, v) # ms, rest)) (parse_members n es)
                                  else if e = 0x7D then Some ([(k, v)], es)
                                  else None)))))"

text \<open>\<open>JSON.parse\<close>: one value, then nothing but white space; a \<open>SyntaxError\<close> otherwise.\<close>

definition JSON_parse :: "js_string \<Rightarrow> js_error + json" where
  "JSON_parse s =
     (case parse_value (Suc (length s)) s of
        None \<Rightarrow> Inl SyntaxError
      | Some (v, rest) \<Rightarrow> if skip_ws rest = [] then Inr v else Inl SyntaxError)"

section \<open>The application (\<open>src/App.tsx\<close>)\<close>

subsection \<open>Ideas and the favorites list\<close>

record StartupIdea =
  name :: js_string
  slogan :: js_string

text \<open>
  The state variables \<open>ideas\<close> and \<open>favorites\<close> are declared as arrays of
  \<open>StartupIdea\<close>, and \<open>toggleFavorite\<close> is modelled on that type. What \<open>JSON.parse\<close>
  returns is not checked against it, so hydrate and \<open>generateIdeas\<close> are modelled on
  JSON values. \<open>ideas_json\<close> is the run-time value of a typed list, each idea an object
  with the properties \<open>name\<close> and \<open>slogan\<close> in this order.
\<close>

definition idea_json :: "StartupIdea \<Rightarrow> json" where
  "idea_json a = JObj [(js ''name'', JStr (name a)), (js ''slogan'', JStr (slogan a))]"

definition ideas_json :: "StartupIdea list \<Rightarrow> json" where
  "ideas_json L = JArr (map idea_json L)"

text \<open>The updater that \<open>toggleFavorite\<close> hands to \<open>setFavorites\<close>.\<close>

definition toggleFavorite :: "StartupIdea \<Rightarrow> StartupIdea list \<Rightarrow> StartupIdea list" where
  "toggleFavorite idea prev =
     (let exists = list_ex (\<lambda>f. name f = name idea) prev in
      if exists then filter (\<lambda>f. name f \<noteq> name idea) prev
      else prev @ [idea])"

definition isFavorite :: "StartupIdea list \<Rightarrow> js_string \<Rightarrow> bool" where
  "isFavorite favorites n = list_ex (\<lambda>f. name f = n) favorites"

definition toggleModifier :: "js_string \<Rightarrow> js_string list \<Rightarrow> js_string list" where
  "toggleModifier modifier prev =
     (if modifier \<in> set prev then filter (\<lambda>m. m \<noteq> modifier) prev else prev @ [modifier])"

subsection \<open>Local storage, hydrate and persist\<close>

text \<open>The local storage of the browser: a map from keys to strings. \<open>getItem\<close> of a
  missing key is \<open>null\<close>; \<open>setItem\<close> overwrites (a full storage is not modelled).\<close>

type_synonym storage = "js_string \<rightharpoonup> js_string"

definition getItem :: "storage \<Rightarrow> js_string \<Rightarrow> js_string option" where
  "getItem st k = st k"

definition setItem :: "js_string \<Rightarrow> js_string \<Rightarrow> storage \<Rightarrow> storage" where
  "setItem k v st = st(k \<mapsto> v)"

definition STORAGE_KEY :: js_string where
  "STORAGE_KEY = js ''startup-favorites''"

datatype console_entry = ConsoleError "js_string list" js_error

definition try_catch :: "js_error + 'a \<Rightarrow> (js_error \<Rightarrow> js_error + 'a) \<Rightarrow> js_error + 'a" where
  "try_catch body handler = (case body of Inl e \<Rightarrow> handler e | Inr x \<Rightarrow> Inr x)"

definition initial_favorites :: json where
  "initial_favorites = JArr []"

text \<open>
  The effect that runs once on mount. Its result is the value of \<open>favorites\<close> afterwards
  and what it wrote to the console; \<open>Inl\<close> would be an exception leaving the effect.
  A missing key is \<open>null\<close> and the empty string is falsy: both leave the initial state.
\<close>

definition hydrate :: "storage \<Rightarrow> js_error + (json \<times> console_entry list)" where
  "hydrate st =
     (case getItem st STORAGE_KEY of
        None \<Rightarrow> Inr (initial_favorites, [])
      | Some saved \<Rightarrow>
          if saved = [] then Inr (initial_favorites, [])
          else
            try_catch
              (case JSON_parse saved of
                 Inl e \<Rightarrow> Inl e
               | Inr parsed \<Rightarrow> Inr (parsed, []))
              (\<lambda>e. Inr (initial_favorites, [ConsoleError [js ''Failed to parse favorites''] e])))"

text \<open>The effect that runs whenever \<open>favorites\<close> has changed.\<close>

definition persist :: "json \<Rightarrow> storage \<Rightarrow> storage" where
  "persist favorites st = setItem STORAGE_KEY (JSON_stringify favorites) st"

text \<open>A click on the star: the new list, and the storage after the persist effect.\<close>

definition toggle_and_persist :: "StartupIdea \<Rightarrow> StartupIdea list \<times> storage \<Rightarrow> StartupIdea list \<times> storage" where
  "toggle_and_persist idea p =
     (let favorites' = toggleFavorite idea (fst p)
      in (favorites', persist (ideas_json favorites') (snd p)))"

subsection \<open>Generating ideas\<close>

datatype view_mode = Generate | Favorites

record app_state =
  industry :: js_string
  keywords_input :: js_string  \<comment> \<open>the state variable \<open>keywords\<close>\<close>
  selectedModifiers :: "js_string list"
  ideas :: json
  favorites :: json
  loading :: bool
  error :: "js_string option"
  copiedIndex :: "nat option"
  view :: view_mode

text \<open>
  The text service is outside the program. A call is identified by its prompt (the model
  name and the response schema are the same in every call); it throws, or it answers
  with a response whose \<open>text\<close> is a string or undefined.
\<close>

datatype service_outcome = Throws js_error | Responds "js_string option"

definition build_prompt :: "js_string \<Rightarrow> js_string \<Rightarrow> js_string list \<Rightarrow> js_string" where
  "build_prompt ind kw mods =
     js ''Generate 10 highly creative, catchy, and modern startup names for the following industry or concept: ''
     @ [0x22] @ ind @ [0x22, 0x2E, 0x0A] @ js ''      ''
     @ (if trim kw \<noteq> []
        then js ''Incorporate or be inspired by these keywords: '' @ [0x22] @ kw @ [0x22, 0x2E]
        else [])
     @ [0x0A] @ js ''      ''
     @ (if length mods > 0
        then js ''Consider these modifiers/styles: '' @ join (js '', '') mods @ [0x2E]
        else [])
     @ [0x0A] @ js ''      ''
     @ js ''For each name, also generate one unique, catchy slogan. Return the result as a list of objects with ''
     @ [0x27] @ js ''name'' @ [0x27] @ js '' and '' @ [0x27] @ js ''slogan'' @ [0x27] @ js '' properties.''"

definition GENERATION_ERROR :: js_string where
  "GENERATION_ERROR = js ''An error occurred while generating ideas. Please try again.''"

text \<open>The body of the \<open>try\<close> block: the value handed to \<open>setIdeas\<close>, or what is thrown.\<close>

definition request_ideas :: "(js_string \<Rightarrow> service_outcome) \<Rightarrow> js_string \<Rightarrow> js_error + json" where
  "request_ideas service prompt =
     (case service prompt of
        Throws e \<Rightarrow> Inl e
      | Responds text \<Rightarrow>
          (case map_option trim text of
             None \<Rightarrow> Inl (Error (js ''Failed to generate ideas.''))
           | Some jsonStr \<Rightarrow>
               if jsonStr \<noteq> [] then JSON_parse jsonStr
               else Inl (Error (js ''Failed to generate ideas.''))))"

text \<open>
  \<open>generateIdeas\<close> suspends once, at the call to the service. The setters before the
  call act on the state of the click; those after it act on the state that is current
  when the call has settled.
\<close>

definition start_generation :: "app_state \<Rightarrow> app_state" where
  "start_generation s = s\<lparr>loading := True, error := None, copiedIndex := None, view := Generate\<rparr>"

text \<open>The rest of the \<open>try\<close> block with its \<open>catch\<close> and \<open>finally\<close>, given what the request
  produced: the state afterwards and the console output; \<open>Inl\<close> would be an exception
  leaving the function.\<close>

definition finish_generation ::
  "js_error + json \<Rightarrow> app_state \<Rightarrow> js_error + (app_state \<times> console_entry list)" where
  "finish_generation outcome s =
     (case
        try_catch
          (case outcome of
             Inl e \<Rightarrow> Inl e
           | Inr parsedIdeas \<Rightarrow> Inr (s\<lparr>ideas := parsedIdeas\<rparr>, []))
          (\<lambda>err. Inr (s\<lparr>error := Some GENERATION_ERROR\<rparr>, [ConsoleError [] err]))
      of
        Inl e \<Rightarrow> Inl e
      | Inr (s2, log) \<Rightarrow> Inr (s2\<lparr>loading := False\<rparr>, log))"

text \<open>
  \<open>generateIdeas\<close> with nothing else happening while the call is pending: the state
  afterwards, the prompts sent to the service, and the console output.
\<close>

definition generateIdeas ::
  "(js_string \<Rightarrow> service_outcome) \<Rightarrow> app_state
     \<Rightarrow> js_error + (app_state \<times> js_string list \<times> console_entry list)" where
  "generateIdeas service s =
     (if trim (industry s) = [] then Inr (s, [], [])
      else
        let prompt = build_prompt (industry s) (keywords_input s) (selectedModifiers s)
        in case finish_generation (request_ideas service prompt) (start_generation s) of
             Inl e \<Rightarrow> Inl e
           | Inr (s', log) \<Rightarrow> Inr (s', [prompt], log))"

text \<open>
  The \<open>responseSchema\<close> of the request: an array of objects whose required properties
  \<open>name\<close> and \<open>slogan\<close> are strings.
\<close>

definition matches_item_schema :: "json \<Rightarrow> bool" where
  "matches_item_schema v =
     (case v of
        JObj ps \<Rightarrow>
          (case (map_of ps (js ''name''), map_of ps (js ''slogan'')) of
             (Some (JStr n), Some (JStr t)) \<Rightarrow> True
           | _ \<Rightarrow> False)
      | _ \<Rightarrow> False)"

definition matches_response_schema :: "json \<Rightarrow> bool" where
  "matches_response_schema v = (case v of JArr vs \<Rightarrow> list_all matches_item_schema vs | _ \<Rightarrow> False)"

text \<open>The invariant of the favorites list: no two entries with the same name.\<close>

definition unique_names :: "StartupIdea list \<Rightarrow> bool" where
  "unique_names L = distinct (map name L)"

text \<open>The contract of the toggle in the words of the specification: remove the first entry
  with the same name if there is one, append the idea otherwise.\<close>

definition spec_toggle :: "StartupIdea \<Rightarrow> StartupIdea list \<Rightarrow> StartupIdea list" where
  "spec_toggle idea L =
     (case find (\<lambda>f. name f = name idea) L of
        Some f \<Rightarrow> remove1 f L
      | None \<Rightarrow> L @ [idea])"

text \<open>The state before the first render (the arguments of the \<open>useState\<close> calls) and an
  empty local storage.\<close>

definition initial_state :: app_state where
  "initial_state =
     \<lparr>industry = [], keywords_input = [], selectedModifiers = [], ideas = JArr [],
      favorites = initial_favorites, loading = False, error = None, copiedIndex = None,
      view = Generate\<rparr>"

definition empty_storage :: storage where
  "empty_storage = Map.empty"

text \<open>Three behaviours of the text service, for concrete runs: the call is rejected, the
  response carries no text, the response carries a given text.\<close>

definition rejecting_service :: "js_string \<Rightarrow> service_outcome" where
  "rejecting_service prompt = Throws (ServiceFailure (js ''quota exceeded''))"

definition silent_service :: "js_string \<Rightarrow> service_outcome" where
  "silent_service prompt = Responds None"

definition canned_service :: "js_string \<Rightarrow> js_string \<Rightarrow> service_outcome" where
  "canned_service text prompt = Responds (Some text)"

subsection \<open>Values that survive \<open>JSON.stringify\<close> and \<open>JSON.parse\<close> unchanged\<close>

text \<open>
  Values without numbers whose objects have distinct keys, none of them an array index:
  for these the property order of the parsed object is the order of the text.
\<close>

fun plain :: "json \<Rightarrow> bool" where
  "plain JNull = True"
| "plain (JBool b) = True"
| "plain (JNum t) = False"
| "plain (JStr s) = True"
| "plain (JArr vs) = list_all plain vs"
| "plain (JObj ps) =
     (distinct (map fst ps) \<and> list_all (\<lambda>p. array_index (fst p) = None \<and> plain (snd p)) ps)"

abbreviation member_text :: "js_string \<times> json \<Rightarrow> js_string" where
  "member_text \<equiv> (\<lambda>(k, v). quote k @ 0x3A # JSON_stringify v)"

text \<open>The prompt \<open>generateIdeas\<close> builds from the state it closes over.\<close>

abbreviation prompt_of :: "app_state \<Rightarrow> js_string" where
  "prompt_of s \<equiv> build_prompt (industry s) (keywords_input s) (selectedModifiers s)"

section \<open>Facts about the JSON functions\<close>

subsection \<open>Strings\<close>

text \<open>Four hexadecimal digits written by \<open>unicode_escape\<close> read back as the code unit.\<close>

lemma unat_of_nat_small: "k < 65536 \<Longrightarrow> unat (of_nat k :: code_unit) = k"
  by (simp add: unat_of_nat)

lemma unat_hex_digit: "d < 16 \<Longrightarrow> unat (hex_digit d) = (if d < 10 then 48 + d else 87 + d)"
  unfolding hex_digit_def by (simp only: unat_of_nat_small split: if_split) simp

lemma hex_value_hex_digit: "d < 16 \<Longrightarrow> hex_value (hex_digit d) = Some d"
  by (simp add: hex_value_def word_le_nat_alt unat_hex_digit)

lemma nibbles: "n div 4096 * 4096 + n div 256 mod 16 * 256 + n div 16 mod 16 * 16 + n mod 16 = (n::nat)"
proof -
  define a where "a = n div 16"
  define b where "b = a div 16"
  define c where "c = b div 16"
  have b: "n div 256 = b" unfolding b_def a_def by (simp add: div_mult2_eq)
  have c: "n div 4096 = c" unfolding c_def b_def a_def by (simp add: div_mult2_eq)
  have 1: "n = a * 16 + n mod 16" unfolding a_def by simp
  have 2: "a = b * 16 + a mod 16" unfolding b_def by simp
  have 3: "b = c * 16 + b mod 16" unfolding c_def by simp
  show ?thesis unfolding b c a_def[symmetric] using 1 2 3 by linarith
qed

lemma hex4_escape:
  "hex4 (hex_digit (unat c div 4096)) (hex_digit (unat c div 256 mod 16))
        (hex_digit (unat c div 16 mod 16)) (hex_digit (unat c mod 16)) = Some (c::code_unit)"
proof -
  have "unat c < 2 ^ 16" using unsigned_less[of c] by simp
  then have d: "unat c div 4096 < 16" by simp
  have "hex4 (hex_digit (unat c div 4096)) (hex_digit (unat c div 256 mod 16))
        (hex_digit (unat c div 16 mod 16)) (hex_digit (unat c mod 16))
      = Some (of_nat (unat c div 4096 * 4096 + unat c div 256 mod 16 * 256 + unat c div 16 mod 16 * 16 + unat c mod 16))"
    by (simp add: hex4_def hex_value_hex_digit d)
  then show ?thesis by (simp only: nibbles) simp
qed

text \<open>Reading what \<open>quote_units\<close> wrote for a string, up to the closing quote, returns
  the string and the text after the quote.\<close>

lemma parse_unicode_escape:
  "parse_string_body (unicode_escape c @ t) = cons_result c (parse_string_body t)"
  by (simp add: unicode_escape_def Let_def hex4_escape)

lemma parse_short_escape:
  "unescape e = Some u \<Longrightarrow> e \<noteq> 0x75 \<Longrightarrow>
   parse_string_body (0x5C # e # t) = cons_result u (parse_string_body t)"
  by simp

lemma parse_raw_unit:
  "c \<noteq> 0x22 \<Longrightarrow> c \<noteq> 0x5C \<Longrightarrow> \<not> c < 0x20 \<Longrightarrow>
   parse_string_body (c # t) = cons_result c (parse_string_body t)"
  by simp

lemma parse_quote_unit:
  "parse_string_body (quote_unit c @ t) = cons_result c (parse_string_body t)"
proof -
  consider "c = 0x08" | "c = 0x09" | "c = 0x0A" | "c = 0x0C" | "c = 0x0D" | "c = 0x22" | "c = 0x5C"
    | "c \<noteq> 0x08" "c \<noteq> 0x09" "c \<noteq> 0x0A" "c \<noteq> 0x0C" "c \<noteq> 0x0D" "c \<noteq> 0x22" "c \<noteq> 0x5C"
    by blast
  then show ?thesis
  proof cases
    case 1 then show ?thesis by (simp add: quote_unit_def unescape_def)
  next
    case 2 then show ?thesis by (simp add: quote_unit_def unescape_def)
  next
    case 3 then show ?thesis by (simp add: quote_unit_def unescape_def)
  next
    case 4 then show ?thesis by (simp add: quote_unit_def unescape_def)
  next
    case 5 then show ?thesis by (simp add: quote_unit_def unescape_def)
  next
    case 6 then show ?thesis by (simp add: quote_unit_def unescape_def)
  next
    case 7 then show ?thesis by (simp add: quote_unit_def unescape_def)
  next
    case 8
    show ?thesis
    proof (cases "c < 0x20 \<or> is_lead c \<or> is_trail c")
      case True
      with 8 have "quote_unit c = unicode_escape c" by (simp add: quote_unit_def)
      then show ?thesis by (simp only: parse_unicode_escape)
    next
      case False
      with 8 have "quote_unit c = [c]" by (simp add: quote_unit_def)
      then show ?thesis using 8 False by (simp add: parse_raw_unit del: parse_string_body.simps)
    qed
  qed
qed

lemma surrogate_is_raw:
  "is_lead c \<or> is_trail c \<Longrightarrow> c \<noteq> 0x22 \<and> c \<noteq> 0x5C \<and> \<not> c < 0x20"
  by (auto simp: is_lead_def is_trail_def word_le_nat_alt word_less_nat_alt)

lemma parse_quote_units:
  "parse_string_body (quote_units s @ 0x22 # rest) = Some (s, rest)"
proof (induction s rule: quote_units.induct)
  case 1
  then show ?case by simp
next
  case (2 c)
  have "parse_string_body (quote_unit c @ 0x22 # rest) = cons_result c (parse_string_body (0x22 # rest))"
    by (rule parse_quote_unit)
  then show ?case by (simp add: cons_result_def)
next
  case (3 c d ds)
  show ?case
  proof (cases "is_lead c \<and> is_trail d")
    case True
    then have q: "quote_units (c # d # ds) @ 0x22 # rest = c # d # (quote_units ds @ 0x22 # rest)"
      by simp
    have "parse_string_body (c # d # (quote_units ds @ 0x22 # rest))
          = cons_result c (cons_result d (parse_string_body (quote_units ds @ 0x22 # rest)))"
      using True surrogate_is_raw[of c] surrogate_is_raw[of d]
      by (simp add: parse_raw_unit del: parse_string_body.simps)
    then show ?thesis using 3(1)[OF True] unfolding q by (simp add: cons_result_def)
  next
    case False
    then have q: "quote_units (c # d # ds) @ 0x22 # rest = quote_unit c @ (quote_units (d # ds) @ 0x22 # rest)"
      by auto
    show ?thesis unfolding q parse_quote_unit using 3(2)[OF False] by (simp add: cons_result_def)
  qed
qed

subsection \<open>Values\<close>

text \<open>One step of the parser on each kind of token.\<close>

lemma skip_ws_token: "\<not> is_json_ws c \<Longrightarrow> skip_ws (c # cs) = c # cs"
  by (simp add: skip_ws_def)

lemma parse_null: "parse_value (Suc n) (js ''null'' @ rest) = Some (JNull, rest)"
  by (simp add: js_def skip_ws_def is_json_ws_def)

lemma parse_true: "parse_value (Suc n) (js ''true'' @ rest) = Some (JBool True, rest)"
  by (simp add: js_def skip_ws_def is_json_ws_def)

lemma parse_false: "parse_value (Suc n) (js ''false'' @ rest) = Some (JBool False, rest)"
  by (simp add: js_def skip_ws_def is_json_ws_def)

lemma parse_quoted: "parse_value (Suc n) (quote s @ rest) = Some (JStr s, rest)"
  by (simp add: quote_def skip_ws_def is_json_ws_def parse_quote_units)

lemma parse_empty_array: "parse_value (Suc n) (0x5B # 0x5D # rest) = Some (JArr [], rest)"
  by (simp add: skip_ws_def is_json_ws_def)

lemma parse_empty_object: "parse_value (Suc n) (0x7B # 0x7D # rest) = Some (JObj [], rest)"
  by (simp add: skip_ws_def is_json_ws_def)

lemma parse_array:
  "skip_ws cs = d # ds \<Longrightarrow> d \<noteq> 0x5D \<Longrightarrow>
   parse_value (Suc n) (0x5B # cs) = map_option (\<lambda>(vs, rest). (JArr vs, rest)) (parse_elements n cs)"
  by (simp add: skip_ws_token is_json_ws_def)

lemma parse_object:
  "skip_ws cs = d # ds \<Longrightarrow> d \<noteq> 0x7D \<Longrightarrow>
   parse_value (Suc n) (0x7B # cs) = map_option (\<lambda>(ms, rest). (make_object ms, rest)) (parse_members n cs)"
  by (simp add: skip_ws_token is_json_ws_def)

lemma parse_elements_last:
  "parse_value n s = Some (v, 0x5D # r) \<Longrightarrow> parse_elements (Suc n) s = Some ([v], r)"
  by (simp add: skip_ws_token is_json_ws_def)

lemma parse_elements_more:
  "parse_value n s = Some (v, 0x2C # r) \<Longrightarrow>
   parse_elements (Suc n) s = map_option (\<lambda>(vs, rest). (v # vs, rest)) (parse_elements n r)"
  by (simp add: skip_ws_token is_json_ws_def)

lemma parse_member_key:
  "parse_members (Suc n) (quote k @ 0x3A # s) =
     (case parse_value n s of
        None \<Rightarrow> None
      | Some (v, r') \<Rightarrow>
          (case skip_ws r' of
             [] \<Rightarrow> None
           | e # es \<Rightarrow>
               if e = 0x2C
               then map_option (\<lambda>(ms, rest). ((k, v) # ms, rest)) (parse_members n es)
               else if e = 0x7D then Some ([(k, v)], es)
               else None))"
  by (simp add: quote_def skip_ws_token is_json_ws_def parse_quote_units)

lemma parse_members_last:
  "parse_value n s = Some (v, 0x7D # r) \<Longrightarrow>
   parse_members (Suc n) (quote k @ 0x3A # s) = Some ([(k, v)], r)"
  unfolding parse_member_key by (simp add: skip_ws_token is_json_ws_def)

lemma parse_members_more:
  "parse_value n s = Some (v, 0x2C # r) \<Longrightarrow>
   parse_members (Suc n) (quote k @ 0x3A # s) =
     map_option (\<lambda>(ms, rest). ((k, v) # ms, rest)) (parse_members n r)"
  unfolding parse_member_key by (simp add: skip_ws_token is_json_ws_def)

text \<open>The text of a plain value starts with a character that is neither white space nor
  a closing bracket.\<close>

lemma stringify_first:
  "plain v \<Longrightarrow> \<exists>c cs. JSON_stringify v = c # cs \<and> c \<in> {0x6E, 0x74, 0x66, 0x22, 0x5B, 0x7B}"
  by (cases v) (auto simp: js_def quote_def)

lemma stringify_token:
  assumes "plain v"
  obtains c cs where "JSON_stringify v = c # cs" "skip_ws (c # cs @ r) = c # cs @ r" "c \<noteq> 0x5D" "c \<noteq> 0x7D"
proof -
  from stringify_first[OF assms] obtain c cs where
    s: "JSON_stringify v = c # cs" and c: "c \<in> {0x6E, 0x74, 0x66, 0x22, 0x5B, 0x7B}" by blast
  from c have "\<not> is_json_ws c" "c \<noteq> 0x5D" "c \<noteq> 0x7D" by (auto simp: is_json_ws_def)
  with s that show thesis by (simp add: skip_ws_token)
qed

text \<open>The elements of an array and the members of an object, given that each value in
  them reads back.\<close>

lemma parse_elements_join:
  assumes val: "\<And>v n rest. v \<in> set vs \<Longrightarrow> length (JSON_stringify v) \<le> n \<Longrightarrow>
                  parse_value n (JSON_stringify v @ rest) = Some (v, rest)"
    and "vs \<noteq> []"
    and "length (join [0x2C] (map JSON_stringify vs)) < m"
  shows "parse_elements m (join [0x2C] (map JSON_stringify vs) @ 0x5D # r) = Some (vs, r)"
  using assms
proof (induction vs arbitrary: m)
  case Nil
  then show ?case by simp
next
  case (Cons v vs)
  from Cons.prems(3) obtain k where m: "m = Suc k" by (cases m) auto
  show ?case
  proof (cases vs)
    case Nil
    with Cons.prems(3) m have "length (JSON_stringify v) \<le> k" by simp
    then have "parse_value k (JSON_stringify v @ 0x5D # r) = Some (v, 0x5D # r)"
      using Cons.prems(1) by simp
    then show ?thesis using Nil m by (simp add: parse_elements_last del: parse_elements.simps)
  next
    case (Cons w ws)
    let ?t = "join [0x2C] (map JSON_stringify vs)"
    have j: "join [0x2C] (map JSON_stringify (v # vs)) = JSON_stringify v @ 0x2C # ?t"
      using Cons by simp
    from Cons.prems(3) m have lv: "length (JSON_stringify v) \<le> k" and lt: "length ?t < k"
      unfolding j by simp_all
    have "parse_value k (JSON_stringify v @ 0x2C # ?t @ 0x5D # r) = Some (v, 0x2C # ?t @ 0x5D # r)"
      using Cons.prems(1) lv by simp
    then have "parse_elements m ((JSON_stringify v @ 0x2C # ?t) @ 0x5D # r)
        = map_option (\<lambda>(vs, rest). (v # vs, rest)) (parse_elements k (?t @ 0x5D # r))"
      unfolding m by (simp add: parse_elements_more del: parse_elements.simps)
    moreover have "parse_elements k (?t @ 0x5D # r) = Some (vs, r)"
      using Cons.IH[of k] Cons.prems(1) lt Cons by simp
    ultimately show ?thesis unfolding j by (simp del: parse_elements.simps)
  qed
qed

lemma parse_members_join:
  assumes val: "\<And>k v n rest. (k, v) \<in> set ps \<Longrightarrow> length (JSON_stringify v) \<le> n \<Longrightarrow>
                  parse_value n (JSON_stringify v @ rest) = Some (v, rest)"
    and "ps \<noteq> []"
    and "length (join [0x2C] (map member_text ps)) < m"
  shows "parse_members m (join [0x2C] (map member_text ps) @ 0x7D # r) = Some (ps, r)"
  using assms
proof (induction ps arbitrary: m)
  case Nil
  then show ?case by simp
next
  case (Cons p ps)
  obtain k v where p: "p = (k, v)" by (cases p)
  from Cons.prems(3) obtain i where m: "m = Suc i" by (cases m) auto
  have pv: "\<And>n rest. length (JSON_stringify v) \<le> n \<Longrightarrow>
              parse_value n (JSON_stringify v @ rest) = Some (v, rest)"
    using Cons.prems(1)[of k v] p by simp
  have tl: "parse_value n (JSON_stringify v' @ rest) = Some (v', rest)"
    if "(k', v') \<in> set ps" "length (JSON_stringify v') \<le> n" for k' v' n rest
    using Cons.prems(1)[of k' v' n rest] that by simp
  show ?case
  proof (cases ps)
    case Nil
    with Cons.prems(3) m p have "length (JSON_stringify v) \<le> i" by simp
    then have "parse_value i (JSON_stringify v @ 0x7D # r) = Some (v, 0x7D # r)"
      by (rule pv)
    then have "parse_members (Suc i) (quote k @ 0x3A # JSON_stringify v @ 0x7D # r) = Some ([(k, v)], r)"
      by (rule parse_members_last)
    then show ?thesis using Nil m p by (simp del: parse_members.simps)
  next
    case (Cons q qs)
    let ?t = "join [0x2C] (map member_text ps)"
    have j: "join [0x2C] (map member_text (p # ps)) = quote k @ 0x3A # JSON_stringify v @ 0x2C # ?t"
      using Cons p by simp
    from Cons.prems(3) m have lv: "length (JSON_stringify v) \<le> i" and lt: "length ?t < i"
      unfolding j by simp_all
    have "parse_value i (JSON_stringify v @ 0x2C # ?t @ 0x7D # r) = Some (v, 0x2C # ?t @ 0x7D # r)"
      using lv by (rule pv)
    then have "parse_members (Suc i) (quote k @ 0x3A # JSON_stringify v @ 0x2C # ?t @ 0x7D # r)
        = map_option (\<lambda>(ms, rest). ((k, v) # ms, rest)) (parse_members i (?t @ 0x7D # r))"
      by (rule parse_members_more)
    moreover have "parse_members i (?t @ 0x7D # r) = Some (ps, r)"
      using Cons.IH[of i, OF tl] lt Cons by simp
    moreover have "join [0x2C] (map member_text (p # ps)) @ 0x7D # r
        = quote k @ 0x3A # JSON_stringify v @ 0x2C # ?t @ 0x7D # r"
      using j by simp
    ultimately show ?thesis unfolding m p by (simp only: option.map prod.case)
  qed
qed

text \<open>With distinct keys that are not array indices, the object has its members in the
  order of the text.\<close>

lemma fold_define_property:
  "distinct (map fst ps) \<Longrightarrow> \<forall>p \<in> set ps. array_index (fst p) = None \<Longrightarrow>
   fst ` set acc \<inter> fst ` set ps = {} \<Longrightarrow> fold define_property ps acc = acc @ ps"
proof (induction ps arbitrary: acc)
  case Nil
  then show ?case by simp
next
  case (Cons p ps)
  from Cons.prems have "define_property p acc = acc @ [p]"
    by (auto simp: define_property_def)
  moreover have "fold define_property ps (acc @ [p]) = (acc @ [p]) @ ps"
    using Cons.prems by (intro Cons.IH) auto
  ultimately show ?case by simp
qed

lemma make_object_plain: "plain (JObj ps) \<Longrightarrow> make_object ps = JObj ps"
  using fold_define_property[of ps "[]"] by (simp add: make_object_def list_all_iff)

lemma stringify_starts:
  "plain v \<Longrightarrow> \<exists>c cs. JSON_stringify v = c # cs \<and> \<not> is_json_ws c \<and> c \<noteq> 0x5D"
  using stringify_first[of v] by (auto simp: is_json_ws_def)

lemma join_first: "xs \<noteq> [] \<Longrightarrow> hd xs = c # cs \<Longrightarrow> \<exists>t. join sep xs @ r = c # t"
  by (cases "(sep, xs)" rule: join.cases) auto

text \<open>Parsing the text of a plain value returns the value: with any depth bound that is at
  least the length of the text, and so with the one \<open>JSON_parse\<close> uses.\<close>

lemma parse_stringify:
  "plain v \<Longrightarrow> length (JSON_stringify v) \<le> n \<Longrightarrow>
   parse_value n (JSON_stringify v @ rest) = Some (v, rest)"
proof (induction v arbitrary: n rest)
  case JNull
  then obtain k where "n = Suc k" by (cases n) (auto simp: js_def)
  then show ?case by (simp only: JSON_stringify.simps parse_null)
next
  case (JBool b)
  then obtain k where "n = Suc k" by (cases n) (auto simp: js_def split: if_splits)
  then show ?case by (cases b) (simp_all only: JSON_stringify.simps parse_true parse_false if_True if_False)
next
  case (JNum t)
  then show ?case by simp
next
  case (JStr s)
  then obtain k where "n = Suc k" by (cases n) (auto simp: quote_def)
  then show ?case by (simp only: JSON_stringify.simps parse_quoted)
next
  case (JArr vs)
  from JArr.prems(2) obtain k where n: "n = Suc k" by (cases n) auto
  show ?case
  proof (cases vs)
    case Nil
    then show ?thesis unfolding n by (simp add: parse_empty_array del: parse_value.simps)
  next
    case (Cons w ws)
    let ?t = "join [0x2C] (map JSON_stringify vs)"
    from JArr.prems(1) Cons have "plain w" by simp
    then obtain c cs where w: "JSON_stringify w = c # cs" and c: "\<not> is_json_ws c" "c \<noteq> 0x5D"
      using stringify_starts by blast
    from Cons w obtain t where t: "?t @ 0x5D # rest = c # t"
      using join_first[of "map JSON_stringify vs" c cs "[0x2C]" "0x5D # rest"] by auto
    have vals: "parse_value m (JSON_stringify x @ r) = Some (x, r)"
      if "x \<in> set vs" "length (JSON_stringify x) \<le> m" for x m r
      using JArr.IH[of x m r] JArr.prems(1) that by (simp add: list_all_iff)
    from JArr.prems(2) n have "length ?t < k" by simp
    with Cons have "parse_elements k (?t @ 0x5D # rest) = Some (vs, rest)"
      by (intro parse_elements_join vals) simp_all
    moreover have "parse_value (Suc k) (0x5B # ?t @ 0x5D # rest)
        = map_option (\<lambda>(vs, rest). (JArr vs, rest)) (parse_elements k (?t @ 0x5D # rest))"
      using c by (intro parse_array[of _ c t]) (simp_all add: t skip_ws_token)
    ultimately show ?thesis unfolding n by (simp del: parse_value.simps)
  qed
next
  case (JObj ps)
  from JObj.prems(2) obtain k where n: "n = Suc k" by (cases n) auto
  show ?case
  proof (cases ps)
    case Nil
    then show ?thesis unfolding n by (simp add: parse_empty_object del: parse_value.simps)
  next
    case (Cons q qs)
    let ?t = "join [0x2C] (map member_text ps)"
    obtain a b where q: "q = (a, b)" by (cases q)
    have "hd (map member_text ps) = 0x22 # (quote_units a @ 0x22 # 0x3A # JSON_stringify b)"
      using Cons q by (simp add: quote_def)
    with Cons obtain t where t: "?t @ 0x7D # rest = 0x22 # t"
      using join_first[of "map member_text ps" "0x22" _ "[0x2C]" "0x7D # rest"] by auto
    have vals: "parse_value m (JSON_stringify x @ r) = Some (x, r)"
      if "(y, x) \<in> set ps" "length (JSON_stringify x) \<le> m" for y x m r
    proof -
      from that(1) JObj.prems(1) have "plain x" by (auto simp: list_all_iff)
      moreover from that(1) have "x \<in> Basic_BNFs.snds (y, x)" by simp
      ultimately show ?thesis using JObj.IH[of "(y, x)" x m r] that by simp
    qed
    from JObj.prems(2) n have "length ?t < k" by simp
    with Cons have "parse_members k (?t @ 0x7D # rest) = Some (ps, rest)"
      by (intro parse_members_join vals) simp_all
    moreover have "parse_value (Suc k) (0x7B # ?t @ 0x7D # rest)
        = map_option (\<lambda>(ms, rest). (make_object ms, rest)) (parse_members k (?t @ 0x7D # rest))"
      by (intro parse_object[of _ "0x22" t]) (simp_all add: t skip_ws_token is_json_ws_def)
    ultimately show ?thesis unfolding n using make_object_plain[OF JObj.prems(1)]
      by (simp del: parse_value.simps)
  qed
qed

lemma JSON_parse_stringify: "plain v \<Longrightarrow> JSON_parse (JSON_stringify v) = Inr v"
  using parse_stringify[of v "Suc (length (JSON_stringify v))" "[]"]
  by (simp add: JSON_parse_def skip_ws_def del: parse_value.simps)

section \<open>Facts about the favorites list\<close>

text \<open>The two branches of the toggle, and their consequences.\<close>

lemma toggleFavorite_present:
  "name idea \<in> name ` set prev \<Longrightarrow> toggleFavorite idea prev = filter (\<lambda>f. name f \<noteq> name idea) prev"
  by (auto simp: toggleFavorite_def list_ex_iff)

lemma toggleFavorite_absent:
  assumes "name idea \<notin> name ` set prev"
  shows "toggleFavorite idea prev = prev @ [idea]"
proof -
  have "\<not> list_ex (\<lambda>f. name f = name idea) prev"
    using assms unfolding list_ex_iff by (metis image_eqI)
  then show ?thesis by (simp add: toggleFavorite_def)
qed

lemma filter_absent: "name idea \<notin> name ` set prev \<Longrightarrow> filter (\<lambda>f. name f \<noteq> name idea) prev = prev"
  by (induction prev) auto

lemma unique_names_toggle: "unique_names L \<Longrightarrow> unique_names (toggleFavorite a L)"
proof (cases "name a \<in> name ` set L")
  case True
  assume "unique_names L"
  then show ?thesis using True
    by (simp add: toggleFavorite_present unique_names_def distinct_map_filter)
next
  case False
  assume "unique_names L"
  then show ?thesis using False
    by (simp add: toggleFavorite_absent unique_names_def)
qed

lemma toggle_twice_absent:
  assumes "name a \<notin> name ` set L"
  shows "toggleFavorite a (toggleFavorite a L) = L"
proof -
  have "toggleFavorite a L = L @ [a]" using assms by (rule toggleFavorite_absent)
  moreover have "name a \<in> name ` set (L @ [a])" by simp
  ultimately have "toggleFavorite a (toggleFavorite a L) = filter (\<lambda>f. name f \<noteq> name a) (L @ [a])"
    by (simp only: toggleFavorite_present)
  then show ?thesis using assms by (simp add: filter_absent)
qed

lemma toggle_twice_present:
  assumes "name a \<in> name ` set L"
  shows "toggleFavorite a (toggleFavorite a L) = filter (\<lambda>f. name f \<noteq> name a) L @ [a]"
proof -
  have 1: "toggleFavorite a L = filter (\<lambda>f. name f \<noteq> name a) L" using assms by (rule toggleFavorite_present)
  have "name a \<notin> name ` set (filter (\<lambda>f. name f \<noteq> name a) L)" by auto
  then show ?thesis unfolding 1 by (rule toggleFavorite_absent)
qed

lemma filter_is_remove1:
  "distinct (map name L) \<Longrightarrow> find (\<lambda>f. name f = n) L = Some f \<Longrightarrow>
   filter (\<lambda>g. name g \<noteq> n) L = remove1 f L"
proof (induction L)
  case Nil
  then show ?case by simp
next
  case (Cons x xs)
  show ?case
  proof (cases "name x = n")
    case True
    with Cons.prems have "f = x" and "n \<notin> name ` set xs" by auto
    then have "filter (\<lambda>g. name g \<noteq> n) xs = xs" by (induction xs) auto
    with True \<open>f = x\<close> show ?thesis by simp
  next
    case False
    with Cons.prems have "find (\<lambda>f. name f = n) xs = Some f" and "distinct (map name xs)" by auto
    with Cons.IH have "filter (\<lambda>g. name g \<noteq> n) xs = remove1 f xs" by simp
    moreover from \<open>find (\<lambda>f. name f = n) xs = Some f\<close> have "name f = n"
      by (auto simp: find_Some_iff)
    ultimately show ?thesis using False by auto
  qed
qed

lemma toggle_refines_spec:
  assumes "unique_names L"
  shows "toggleFavorite idea L = spec_toggle idea L"
proof (cases "find (\<lambda>f. name f = name idea) L")
  case None
  then have "name idea \<notin> name ` set L" by (auto simp: find_None_iff)
  then show ?thesis using None by (simp add: toggleFavorite_absent spec_toggle_def)
next
  case (Some f)
  then have "name idea \<in> name ` set L" by (auto simp: find_Some_iff image_iff) (metis nth_mem)
  then show ?thesis using Some assms filter_is_remove1[of L "name idea" f]
    by (simp add: toggleFavorite_present spec_toggle_def unique_names_def)
qed


section \<open>Facts about hydrate and persist\<close>

text \<open>A typed list of ideas is a plain value, and different lists have different values.\<close>

lemma plain_ideas_json: "plain (ideas_json L)"
  by (simp add: ideas_json_def idea_json_def list_all_iff js_def array_index_def is_digit_def)

lemma ideas_json_inj: "ideas_json L = ideas_json L' \<Longrightarrow> L = L'"
  unfolding ideas_json_def
  by (induction L arbitrary: L') (auto simp: idea_json_def)

lemma JSON_parse_empty: "JSON_parse [] = Inl SyntaxError"
  by (simp add: JSON_parse_def skip_ws_def)

lemma stringify_array_nonempty: "JSON_stringify (ideas_json L) \<noteq> []"
  by (simp add: ideas_json_def)

lemma trim_brackets: "trim (0x5B # xs @ [0x5D]) = 0x5B # xs @ [0x5D]"
  by (simp add: trim_def is_js_space_def)

lemma trim_stringify_ideas: "trim (JSON_stringify (ideas_json L)) = JSON_stringify (ideas_json L)"
  by (simp add: ideas_json_def trim_brackets)

text \<open>Hydrate, case by case.\<close>

lemma hydrate_persist_ideas: "hydrate (persist (ideas_json L) st) = Inr (ideas_json L, [])"
  by (simp add: hydrate_def persist_def getItem_def setItem_def stringify_array_nonempty
      JSON_parse_stringify plain_ideas_json try_catch_def)

lemma hydrate_missing: "getItem st STORAGE_KEY = None \<Longrightarrow> hydrate st = Inr (initial_favorites, [])"
  by (simp add: hydrate_def)

lemma hydrate_empty_string: "getItem st STORAGE_KEY = Some [] \<Longrightarrow> hydrate st = Inr (initial_favorites, [])"
  by (simp add: hydrate_def)

lemma hydrate_unparsable:
  "getItem st STORAGE_KEY = Some saved \<Longrightarrow> saved \<noteq> [] \<Longrightarrow> JSON_parse saved = Inl e \<Longrightarrow>
   hydrate st = Inr (initial_favorites, [ConsoleError [js ''Failed to parse favorites''] e])"
  by (simp add: hydrate_def try_catch_def)

lemma hydrate_parsable:
  "getItem st STORAGE_KEY = Some saved \<Longrightarrow> JSON_parse saved = Inr v \<Longrightarrow> hydrate st = Inr (v, [])"
  by (auto simp: hydrate_def try_catch_def JSON_parse_empty)

lemma trim_blank: "list_all is_js_space s \<Longrightarrow> trim s = []"
proof -
  assume "list_all is_js_space s"
  then have d: "dropWhile is_js_space s = []" by (simp add: list_all_iff)
  show ?thesis unfolding trim_def d by simp
qed

lemma trim_empty_iff: "trim s = [] \<longleftrightarrow> list_all is_js_space s"
proof
  assume "trim s = []"
  then have a: "\<forall>x \<in> set (dropWhile is_js_space s). is_js_space x"
    by (simp add: trim_def)
  have "dropWhile is_js_space s = []"
  proof (rule ccontr)
    assume n: "dropWhile is_js_space s \<noteq> []"
    then have "\<not> is_js_space (hd (dropWhile is_js_space s))" by (rule hd_dropWhile)
    with a n show False by simp
  qed
  then show "list_all is_js_space s" by (simp add: list_all_iff)
next
  assume "list_all is_js_space s"
  then show "trim s = []" by (rule trim_blank)
qed

lemma getItem_setItem: "getItem (setItem k v st) k = Some v"
  by (simp add: getItem_def setItem_def)


section \<open>Facts about \<open>generateIdeas\<close>\<close>

text \<open>The request and the three ways \<open>generateIdeas\<close> can go.\<close>

lemma request_ideas_throws: "service p = Throws e \<Longrightarrow> request_ideas service p = Inl e"
  by (simp add: request_ideas_def)

lemma request_ideas_no_text:
  "service p = Responds None \<Longrightarrow> request_ideas service p = Inl (Error (js ''Failed to generate ideas.''))"
  by (simp add: request_ideas_def)

lemma request_ideas_blank_text:
  "service p = Responds (Some text) \<Longrightarrow> trim text = [] \<Longrightarrow>
   request_ideas service p = Inl (Error (js ''Failed to generate ideas.''))"
  by (simp add: request_ideas_def)

lemma request_ideas_text:
  "service p = Responds (Some text) \<Longrightarrow> request_ideas service p = JSON_parse (trim text) \<or> trim text = []"
  by (simp add: request_ideas_def)

lemma request_ideas_parsed:
  "service p = Responds (Some text) \<Longrightarrow> JSON_parse (trim text) = Inr v \<Longrightarrow>
   request_ideas service p = Inr v"
  by (auto simp: request_ideas_def JSON_parse_empty)

lemma request_ideas_unparsable:
  "service p = Responds (Some text) \<Longrightarrow> JSON_parse (trim text) = Inl e \<Longrightarrow>
   \<exists>e'. request_ideas service p = Inl e'"
  by (auto simp: request_ideas_def)

lemma finish_generation_cases:
  "finish_generation outcome s =
     (case outcome of
        Inr v \<Rightarrow> Inr (s\<lparr>ideas := v, loading := False\<rparr>, [])
      | Inl e \<Rightarrow> Inr (s\<lparr>error := Some GENERATION_ERROR, loading := False\<rparr>, [ConsoleError [] e]))"
  by (simp add: finish_generation_def try_catch_def split: sum.split)

lemma generate_blank: "trim (industry s) = [] \<Longrightarrow> generateIdeas service s = Inr (s, [], [])"
  by (simp add: generateIdeas_def)

lemma generate_success:
  "trim (industry s) \<noteq> [] \<Longrightarrow> request_ideas service (prompt_of s) = Inr v \<Longrightarrow>
   generateIdeas service s =
     Inr (s\<lparr>ideas := v, loading := False, error := None, copiedIndex := None, view := Generate\<rparr>,
          [prompt_of s], [])"
  by (simp add: generateIdeas_def finish_generation_def start_generation_def try_catch_def Let_def)

lemma generate_failure:
  "trim (industry s) \<noteq> [] \<Longrightarrow> request_ideas service (prompt_of s) = Inl e \<Longrightarrow>
   generateIdeas service s =
     Inr (s\<lparr>loading := False, error := Some GENERATION_ERROR, copiedIndex := None, view := Generate\<rparr>,
          [prompt_of s], [ConsoleError [] e])"
  by (simp add: generateIdeas_def finish_generation_def start_generation_def try_catch_def Let_def)

lemma generate_cases:
  obtains "trim (industry s) = []" "generateIdeas service s = Inr (s, [], [])"
  | v where "trim (industry s) \<noteq> []" "request_ideas service (prompt_of s) = Inr v"
      "generateIdeas service s =
         Inr (s\<lparr>ideas := v, loading := False, error := None, copiedIndex := None, view := Generate\<rparr>,
              [prompt_of s], [])"
  | e where "trim (industry s) \<noteq> []" "request_ideas service (prompt_of s) = Inl e"
      "generateIdeas service s =
         Inr (s\<lparr>loading := False, error := Some GENERATION_ERROR, copiedIndex := None, view := Generate\<rparr>,
              [prompt_of s], [ConsoleError [] e])"
proof (cases "trim (industry s) = []")
  case True
  then show ?thesis using that(1) generate_blank by blast
next
  case False
  then show ?thesis
    using that(2,3) generate_success generate_failure
    by (cases "request_ideas service (prompt_of s)") blast+
qed

lemma isFavorite_iff: "isFavorite L n \<longleftrightarrow> n \<in> name ` set L"
  by (auto simp: isFavorite_def list_ex_iff)


section \<open>The depth bound of the parser\<close>

text \<open>
  A successful parse needs no more depth than the number of characters it consumes, so
  a parse that succeeds for some bound succeeds for the bound \<open>JSON_parse\<close> uses.
\<close>

lemma skip_ws_Cons_length: "skip_ws s = c # cs \<Longrightarrow> length cs < length s"
proof -
  assume a: "skip_ws s = c # cs"
  have "length (skip_ws s) \<le> length s" unfolding skip_ws_def by (rule length_dropWhile_le)
  with a show ?thesis by simp
qed

lemma parse_string_body_length:
  "parse_string_body s = Some (t, r) \<Longrightarrow> length r < length s"
proof (induction s arbitrary: t rule: length_induct)
  case (1 s)
  show ?case
  proof (cases s)
    case Nil
    with "1.prems" show ?thesis by simp
  next
    case (Cons c cs)
    with "1.prems" have
      "r = cs \<or> (\<exists>r' t'. length r' < length s \<and> parse_string_body r' = Some (t', r))"
      by (auto simp: cons_result_def split: if_splits list.splits option.splits)
    then show ?thesis
    proof
      assume "r = cs"
      with Cons show ?thesis by simp
    next
      assume "\<exists>r' t'. length r' < length s \<and> parse_string_body r' = Some (t', r)"
      then obtain r' t' where l: "length r' < length s" and p: "parse_string_body r' = Some (t', r)"
        by blast
      from "1.IH" l p have "length r < length r'" by blast
      with l show ?thesis by simp
    qed
  qed
qed

lemma parse_digits_length: "parse_digits s = Some (t, r) \<Longrightarrow> length r < length s"
proof -
  assume "parse_digits s = Some (t, r)"
  then have t: "takeWhile is_digit s \<noteq> []" and r: "r = dropWhile is_digit s"
    by (auto simp: parse_digits_def split: if_splits)
  have "length (takeWhile is_digit s) + length (dropWhile is_digit s) = length s"
    by (metis length_append takeWhile_dropWhile_id)
  with t r show ?thesis by (cases "takeWhile is_digit s") auto
qed

lemma parse_int_length: "parse_int s = Some (t, r) \<Longrightarrow> length r < length s"
  by (auto simp: parse_int_def split: list.splits if_splits dest: parse_digits_length)

lemma parse_frac_length: "parse_frac s = Some (t, r) \<Longrightarrow> length r \<le> length s"
  by (auto simp: parse_frac_def split: list.splits if_splits dest!: parse_digits_length)

lemma parse_exp_length: "parse_exp s = Some (t, r) \<Longrightarrow> length r \<le> length s"
  by (auto simp: parse_exp_def split: list.splits if_splits dest!: parse_digits_length)

lemma parse_number_length: "parse_number s = Some (t, r) \<Longrightarrow> length r < length s"
proof -
  assume a: "parse_number s = Some (t, r)"
  define s1 where "s1 = (case s of c # cs \<Rightarrow> if c = 0x2D then cs else s | [] \<Rightarrow> s)"
  have s1: "length s1 \<le> length s" by (auto simp: s1_def split: list.splits)
  from a obtain ip s2 fp s3 ep where
    "parse_int s1 = Some (ip, s2)" "parse_frac s2 = Some (fp, s3)" "parse_exp s3 = Some (ep, r)"
    by (auto simp: parse_number_def s1_def split: list.splits if_splits option.splits)
  with s1 show ?thesis
    using parse_int_length[of s1 ip s2] parse_frac_length[of s2 fp s3] parse_exp_length[of s3 ep r]
    by linarith
qed

lemma parse_value_step:
  assumes E0: "\<forall>s vs r. parse_elements k s = Some (vs, r) \<longrightarrow>
            length r < length s \<and> (\<forall>n. length s \<le> n + length r \<longrightarrow> parse_elements n s = Some (vs, r))"
    and M0: "\<forall>s ms r. parse_members k s = Some (ms, r) \<longrightarrow>
            length r < length s \<and> (\<forall>n. length s \<le> n + length r \<longrightarrow> parse_members n s = Some (ms, r))"
    and p: "parse_value (Suc k) s = Some (v, r)"
  shows "length r < length s \<and> (\<forall>n. length s \<le> n + length r \<longrightarrow> parse_value n s = Some (v, r))"
proof -
  note E = E0[rule_format] and M = M0[rule_format]
  show ?thesis
  proof (cases "skip_ws s")
  case Nil
  with p show ?thesis by simp
next
  case (Cons c cs)
  then have lcs: "length cs < length s" by (rule skip_ws_Cons_length)
  consider (obj) "c = 0x7B" | (arr) "c \<noteq> 0x7B" "c = 0x5B" | (leaf) "c \<noteq> 0x7B" "c \<noteq> 0x5B" by blast
  then show ?thesis
  proof cases
    case obj
    show ?thesis
    proof (cases "skip_ws cs")
      case Nil
      with p Cons obj show ?thesis by simp
    next
      case inner: (Cons d ds)
      then have lds: "length ds < length cs" by (rule skip_ws_Cons_length)
      show ?thesis
      proof (cases "d = 0x7D")
        case True
        with p Cons obj inner have r: "r = ds" "v = JObj []" by simp_all
        have "parse_value n s = Some (v, r)" if "length s \<le> n + length r" for n
        proof -
          from that lcs lds r obtain n' where "n = Suc n'" by (cases n) auto
          then show ?thesis using Cons obj inner True r by simp
        qed
        with lcs lds r show ?thesis by simp
      next
        case False
        with p Cons obj inner obtain ms where
          m: "parse_members k cs = Some (ms, r)" and v: "v = make_object ms"
          by auto
        from M[OF m] have lr: "length r < length cs"
          and st: "\<And>n. length cs \<le> n + length r \<Longrightarrow> parse_members n cs = Some (ms, r)" by simp_all
        have "parse_value n s = Some (v, r)" if "length s \<le> n + length r" for n
        proof -
          from that lcs lr obtain n' where n: "n = Suc n'" by (cases n) auto
          with that lcs have "length cs \<le> n' + length r" by simp
          then have "parse_members n' cs = Some (ms, r)" by (rule st)
          then show ?thesis using Cons obj inner False v n by simp
        qed
        with lcs lr show ?thesis by simp
      qed
    qed
  next
    case arr
    show ?thesis
    proof (cases "skip_ws cs")
      case Nil
      with p Cons arr show ?thesis by simp
    next
      case inner: (Cons d ds)
      then have lds: "length ds < length cs" by (rule skip_ws_Cons_length)
      show ?thesis
      proof (cases "d = 0x5D")
        case True
        with p Cons arr inner have r: "r = ds" "v = JArr []" by simp_all
        have "parse_value n s = Some (v, r)" if "length s \<le> n + length r" for n
        proof -
          from that lcs lds r obtain n' where "n = Suc n'" by (cases n) auto
          then show ?thesis using Cons arr inner True r by simp
        qed
        with lcs lds r show ?thesis by simp
      next
        case False
        with p Cons arr inner obtain vs where
          m: "parse_elements k cs = Some (vs, r)" and v: "v = JArr vs"
          by auto
        from E[OF m] have lr: "length r < length cs"
          and st: "\<And>n. length cs \<le> n + length r \<Longrightarrow> parse_elements n cs = Some (vs, r)" by simp_all
        have "parse_value n s = Some (v, r)" if "length s \<le> n + length r" for n
        proof -
          from that lcs lr obtain n' where n: "n = Suc n'" by (cases n) auto
          with that lcs have "length cs \<le> n' + length r" by simp
          then have "parse_elements n' cs = Some (vs, r)" by (rule st)
          then show ?thesis using Cons arr inner False v n by simp
        qed
        with lcs lr show ?thesis by simp
      qed
    qed
  next
    case leaf
    define leaf_result where "leaf_result =
       (if c = 0x22 then map_option (\<lambda>(t, rest). (JStr t, rest)) (parse_string_body cs)
        else if take 4 (c # cs) = js ''true'' then Some (JBool True, drop 4 (c # cs))
        else if take 5 (c # cs) = js ''false'' then Some (JBool False, drop 5 (c # cs))
        else if take 4 (c # cs) = js ''null'' then Some (JNull, drop 4 (c # cs))
        else map_option (\<lambda>(t, rest). (JNum t, rest)) (parse_number (c # cs)))"
    have any: "parse_value (Suc n) s = leaf_result" for n
      using Cons leaf by (simp add: leaf_result_def)
    with p have lf: "leaf_result = Some (v, r)" by simp
    then have "length r < length (c # cs)"
      unfolding leaf_result_def
      by (auto split: if_splits dest: parse_string_body_length parse_number_length)
    with lcs have lr: "length r < length s" by simp
    have "parse_value n s = Some (v, r)" if "length s \<le> n + length r" for n
    proof -
      from that lr obtain n' where "n = Suc n'" by (cases n) auto
      then show ?thesis using any lf by simp
    qed
    with lr show ?thesis by simp
  qed
qed
qed

lemma parse_elements_step:
  assumes V0: "\<forall>s v r. parse_value k s = Some (v, r) \<longrightarrow>
            length r < length s \<and> (\<forall>n. length s \<le> n + length r \<longrightarrow> parse_value n s = Some (v, r))"
    and E0: "\<forall>s vs r. parse_elements k s = Some (vs, r) \<longrightarrow>
            length r < length s \<and> (\<forall>n. length s \<le> n + length r \<longrightarrow> parse_elements n s = Some (vs, r))"
    and p: "parse_elements (Suc k) s = Some (vs, r)"
  shows "length r < length s \<and> (\<forall>n. length s \<le> n + length r \<longrightarrow> parse_elements n s = Some (vs, r))"
proof -
  note V = V0[rule_format] and E = E0[rule_format]
  from p obtain v r1 where pv: "parse_value k s = Some (v, r1)"
    by (auto split: option.splits)
  from V[OF pv] have l1: "length r1 < length s"
    and sv: "\<And>n. length s \<le> n + length r1 \<Longrightarrow> parse_value n s = Some (v, r1)" by simp_all
  from p pv obtain c cs where sk: "skip_ws r1 = c # cs"
    by (cases "skip_ws r1") auto
  then have lcs: "length cs < length r1" by (rule skip_ws_Cons_length)
  show ?thesis
  proof (cases "c = 0x2C")
    case True
    with p pv sk obtain vs' where pe: "parse_elements k cs = Some (vs', r)" and vs: "vs = v # vs'"
      by auto
    from E[OF pe] have lr: "length r < length cs"
      and se: "\<And>n. length cs \<le> n + length r \<Longrightarrow> parse_elements n cs = Some (vs', r)" by simp_all
    have "parse_elements n s = Some (vs, r)" if "length s \<le> n + length r" for n
    proof -
      from that l1 lcs lr obtain n' where n: "n = Suc n'" by (cases n) auto
      from that n l1 lcs lr have "length s \<le> n' + length r1" "length cs \<le> n' + length r" by simp_all
      then have "parse_value n' s = Some (v, r1)" "parse_elements n' cs = Some (vs', r)"
        using sv se by simp_all
      then show ?thesis using n sk True vs by simp
    qed
    with l1 lcs lr show ?thesis by simp
  next
    case False
    with p pv sk have i: "(if c = 0x5D then Some ([v], cs) else None) = Some (vs, r)"
      by simp
    then have c: "c = 0x5D" by (cases "c = 0x5D") simp_all
    with i have r: "r = cs" and vs: "vs = [v]" by simp_all
    have "parse_elements n s = Some (vs, r)" if "length s \<le> n + length r" for n
    proof -
      from that l1 lcs r obtain n' where n: "n = Suc n'" by (cases n) auto
      from that n l1 lcs r have "length s \<le> n' + length r1" by simp
      then have "parse_value n' s = Some (v, r1)" by (rule sv)
      then show ?thesis using n sk c r vs by simp
    qed
    with l1 lcs r show ?thesis by simp
  qed
qed

lemma parse_members_unfold:
  "skip_ws s = 0x22 # qs \<Longrightarrow> parse_string_body qs = Some (key, r0) \<Longrightarrow> skip_ws r0 = 0x3A # cs \<Longrightarrow>
   parse_members (Suc k) s =
     (case parse_value k cs of
        None \<Rightarrow> None
      | Some (v, r') \<Rightarrow>
          (case skip_ws r' of
             [] \<Rightarrow> None
           | e # es \<Rightarrow>
               if e = 0x2C
               then map_option (\<lambda>(ms, rest). ((key, v) # ms, rest)) (parse_members k es)
               else if e = 0x7D then Some ([(key, v)], es)
               else None))"
  by simp

lemma parse_members_step:
  assumes V0: "\<forall>s v r. parse_value k s = Some (v, r) \<longrightarrow>
            length r < length s \<and> (\<forall>n. length s \<le> n + length r \<longrightarrow> parse_value n s = Some (v, r))"
    and M0: "\<forall>s ms r. parse_members k s = Some (ms, r) \<longrightarrow>
            length r < length s \<and> (\<forall>n. length s \<le> n + length r \<longrightarrow> parse_members n s = Some (ms, r))"
    and p: "parse_members (Suc k) s = Some (ms, r)"
  shows "length r < length s \<and> (\<forall>n. length s \<le> n + length r \<longrightarrow> parse_members n s = Some (ms, r))"
proof -
  note V = V0[rule_format] and M = M0[rule_format]
  from p obtain q qs where s0': "skip_ws s = q # qs"
    by (cases "skip_ws s") simp_all
  with p have "q = 0x22" by (cases "q = 0x22") simp_all
  with s0' have s0: "skip_ws s = 0x22 # qs" by simp
  then have lqs: "length qs < length s" by (rule skip_ws_Cons_length)
  from p s0 obtain key r0 where ps: "parse_string_body qs = Some (key, r0)"
    by (cases "parse_string_body qs") auto
  then have l0: "length r0 < length qs" by (rule parse_string_body_length)
  from p s0 ps obtain c cs where s1': "skip_ws r0 = c # cs"
    by (cases "skip_ws r0") simp_all
  with p s0 ps have "c = 0x3A" by (cases "c = 0x3A") simp_all
  with s1' have s1: "skip_ws r0 = 0x3A # cs" by simp
  then have lcs: "length cs < length r0" by (rule skip_ws_Cons_length)
  note unfold = parse_members_unfold[OF s0 ps s1]
  from p have p': "(case parse_value k cs of
        None \<Rightarrow> None
      | Some (v, r') \<Rightarrow>
          (case skip_ws r' of
             [] \<Rightarrow> None
           | e # es \<Rightarrow>
               if e = 0x2C
               then map_option (\<lambda>(ms, rest). ((key, v) # ms, rest)) (parse_members k es)
               else if e = 0x7D then Some ([(key, v)], es)
               else None)) = Some (ms, r)"
    unfolding unfold .
  then obtain v r1 where pv: "parse_value k cs = Some (v, r1)"
    by (cases "parse_value k cs") auto
  from V[OF pv] have l1: "length r1 < length cs"
    and sv: "\<And>n. length cs \<le> n + length r1 \<Longrightarrow> parse_value n cs = Some (v, r1)" by simp_all
  from p' pv obtain e es where s2: "skip_ws r1 = e # es"
    by (cases "skip_ws r1") simp_all
  then have les: "length es < length r1" by (rule skip_ws_Cons_length)
  show ?thesis
  proof (cases "e = 0x2C")
    case True
    with p' pv s2 obtain ms' where pm: "parse_members k es = Some (ms', r)"
      and ms: "ms = (key, v) # ms'"
      by auto
    from M[OF pm] have lr: "length r < length es"
      and sm: "\<And>n. length es \<le> n + length r \<Longrightarrow> parse_members n es = Some (ms', r)" by simp_all
    have "parse_members n s = Some (ms, r)" if "length s \<le> n + length r" for n
    proof -
      from that lqs l0 lcs l1 les lr obtain n' where n: "n = Suc n'" by (cases n) auto
      from that n lqs l0 lcs l1 les lr
      have "length cs \<le> n' + length r1" "length es \<le> n' + length r" by simp_all
      then have "parse_value n' cs = Some (v, r1)" "parse_members n' es = Some (ms', r)"
        using sv sm by simp_all
      then show ?thesis unfolding n parse_members_unfold[OF s0 ps s1] using s2 True ms by simp
    qed
    with lqs l0 lcs l1 les lr show ?thesis by simp
  next
    case False
    with p' pv s2 have i: "(if e = 0x7D then Some ([(key, v)], es) else None) = Some (ms, r)"
      by simp
    then have e: "e = 0x7D" by (cases "e = 0x7D") simp_all
    with i have r: "r = es" and ms: "ms = [(key, v)]" by simp_all
    have "parse_members n s = Some (ms, r)" if "length s \<le> n + length r" for n
    proof -
      from that lqs l0 lcs l1 les r obtain n' where n: "n = Suc n'" by (cases n) auto
      from that n lqs l0 lcs l1 les r have "length cs \<le> n' + length r1" by simp
      then have "parse_value n' cs = Some (v, r1)" by (rule sv)
      then show ?thesis unfolding n parse_members_unfold[OF s0 ps s1] using s2 e r ms by simp
    qed
    with lqs l0 lcs l1 les r show ?thesis by simp
  qed
qed

lemma parse_fuel_stable:
  "(\<forall>s v r. parse_value k s = Some (v, r) \<longrightarrow>
      length r < length s \<and> (\<forall>n. length s \<le> n + length r \<longrightarrow> parse_value n s = Some (v, r)))
   \<and> (\<forall>s vs r. parse_elements k s = Some (vs, r) \<longrightarrow>
      length r < length s \<and> (\<forall>n. length s \<le> n + length r \<longrightarrow> parse_elements n s = Some (vs, r)))
   \<and> (\<forall>s ms r. parse_members k s = Some (ms, r) \<longrightarrow>
      length r < length s \<and> (\<forall>n. length s \<le> n + length r \<longrightarrow> parse_members n s = Some (ms, r)))"
proof (induction k)
  case 0
  show ?case by simp
next
  case (Suc k)
  note V = Suc.IH[THEN conjunct1]
  note E = Suc.IH[THEN conjunct2, THEN conjunct1]
  note M = Suc.IH[THEN conjunct2, THEN conjunct2]
  show ?case
  proof (intro conjI)
    show "\<forall>s v r. parse_value (Suc k) s = Some (v, r) \<longrightarrow>
      length r < length s \<and> (\<forall>n. length s \<le> n + length r \<longrightarrow> parse_value n s = Some (v, r))"
      by (intro allI, rule impI, erule parse_value_step[OF E M])
  next
    show "\<forall>s vs r. parse_elements (Suc k) s = Some (vs, r) \<longrightarrow>
      length r < length s \<and> (\<forall>n. length s \<le> n + length r \<longrightarrow> parse_elements n s = Some (vs, r))"
      by (intro allI, rule impI, erule parse_elements_step[OF V E])
  next
    show "\<forall>s ms r. parse_members (Suc k) s = Some (ms, r) \<longrightarrow>
      length r < length s \<and> (\<forall>n. length s \<le> n + length r \<longrightarrow> parse_members n s = Some (ms, r))"
      by (intro allI, rule impI, erule parse_members_step[OF V M])
  qed
qed

text \<open>The bound in \<open>JSON_parse\<close> is never what makes a text fail.\<close>

lemma JSON_parse_fuel:
  assumes "parse_value k s = Some (v, r)"
  shows "parse_value (Suc (length s)) s = Some (v, r)"
proof -
  from parse_fuel_stable[of k] assms
  have "\<forall>n. length s \<le> n + length r \<longrightarrow> parse_value n s = Some (v, r)" by blast
  then show ?thesis by (simp del: parse_value.simps)
qed

lemma JSON_parse_SyntaxError_iff:
  "JSON_parse s = Inl SyntaxError \<longleftrightarrow> \<not> (\<exists>k v r. parse_value k s = Some (v, r) \<and> skip_ws r = [])"
proof
  assume a: "JSON_parse s = Inl SyntaxError"
  show "\<not> (\<exists>k v r. parse_value k s = Some (v, r) \<and> skip_ws r = [])"
  proof
    assume "\<exists>k v r. parse_value k s = Some (v, r) \<and> skip_ws r = []"
    then obtain k v r where k: "parse_value k s = Some (v, r)" and r: "skip_ws r = []" by blast
    from k have "parse_value (Suc (length s)) s = Some (v, r)" by (rule JSON_parse_fuel)
    with r have "JSON_parse s = Inr v" by (simp add: JSON_parse_def del: parse_value.simps)
    with a show False by simp
  qed
next
  assume n: "\<not> (\<exists>k v r. parse_value k s = Some (v, r) \<and> skip_ws r = [])"
  show "JSON_parse s = Inl SyntaxError"
  proof (cases "parse_value (Suc (length s)) s")
    case None
    then show ?thesis by (simp add: JSON_parse_def del: parse_value.simps)
  next
    case (Some a)
    obtain v r where "a = (v, r)" by (cases a)
    with Some n have "skip_ws r \<noteq> []" by blast
    with Some \<open>a = (v, r)\<close> show ?thesis by (simp add: JSON_parse_def del: parse_value.simps)
  qed
qed


section \<open>The claims of the specification\<close>

subsection \<open>The favorites list\<close>

text \<open>
  C1, as stated: every operation that produces a favorites list, hydrate included, keeps
  the names unique. Hydrate returns whatever list the stored text denotes: the stored text
  below holds two entries named \<open>A\<close>, and so does the list hydrate returns.
\<close>

theorem hydrate_duplicate_names_counterexample:
  \<open>hydrate (setItem STORAGE_KEY (js ''[{"name":"A","slogan":"x"},{"name":"A","slogan":"y"}]'') empty_storage)
     = Inr (ideas_json [\<lparr>name = js ''A'', slogan = js ''x''\<rparr>, \<lparr>name = js ''A'', slogan = js ''y''\<rparr>], [])
   \<and> \<not> unique_names [\<lparr>name = js ''A'', slogan = js ''x''\<rparr>, \<lparr>name = js ''A'', slogan = js ''y''\<rparr>]\<close>
proof -
  have p: \<open>JSON_parse (js ''[{"name":"A","slogan":"x"},{"name":"A","slogan":"y"}]'')
     = Inr (ideas_json [\<lparr>name = js ''A'', slogan = js ''x''\<rparr>, \<lparr>name = js ''A'', slogan = js ''y''\<rparr>])\<close>
    by (simp add: JSON_parse_def js_def skip_ws_def is_json_ws_def ideas_json_def idea_json_def
        make_object_def define_property_def array_index_def is_digit_def cons_result_def)
  show ?thesis
    using hydrate_parsable[OF getItem_setItem p] by (simp add: unique_names_def)
qed

text \<open>
  C1, amended: the toggle keeps the names of a list unique; the list before hydration is
  empty; and hydrating what persist wrote for a list returns that list, so a list with
  unique names comes back with unique names. (Hydrate does not look at the names of what
  it reads.)
\<close>

theorem unique_names_preserved:
  "unique_names L \<Longrightarrow>
     unique_names (toggleFavorite a L)
     \<and> hydrate (persist (ideas_json L) st) = Inr (ideas_json L, [])
     \<and> initial_favorites = ideas_json [] \<and> unique_names []"
proof (intro conjI)
  assume "unique_names L"
  then show "unique_names (toggleFavorite a L)" by (rule unique_names_toggle)
next
  show "hydrate (persist (ideas_json L) st) = Inr (ideas_json L, [])" by (rule hydrate_persist_ideas)
next
  show "initial_favorites = ideas_json []" by (simp add: initial_favorites_def ideas_json_def)
next
  show "unique_names []" by (simp add: unique_names_def)
qed

text \<open>C1, a run of the amended statement on the list \<open>[A, B]\<close>.\<close>

theorem unique_names_preserved_witness:
  "unique_names [\<lparr>name = js ''A'', slogan = js ''x''\<rparr>, \<lparr>name = js ''B'', slogan = js ''y''\<rparr>]
   \<and> unique_names (toggleFavorite \<lparr>name = js ''A'', slogan = js ''z''\<rparr>
        [\<lparr>name = js ''A'', slogan = js ''x''\<rparr>, \<lparr>name = js ''B'', slogan = js ''y''\<rparr>])
   \<and> hydrate (persist (ideas_json [\<lparr>name = js ''A'', slogan = js ''x''\<rparr>, \<lparr>name = js ''B'', slogan = js ''y''\<rparr>]) empty_storage)
       = Inr (ideas_json [\<lparr>name = js ''A'', slogan = js ''x''\<rparr>, \<lparr>name = js ''B'', slogan = js ''y''\<rparr>], [])"
proof -
  have h: "unique_names [\<lparr>name = js ''A'', slogan = js ''x''\<rparr>, \<lparr>name = js ''B'', slogan = js ''y''\<rparr>]"
    by (simp add: unique_names_def js_def)
  show ?thesis
    using h unique_names_preserved[OF h, of "\<lparr>name = js ''A'', slogan = js ''z''\<rparr>" empty_storage]
    by simp
qed

text \<open>
  C2, as stated: toggling the same idea twice restores the list, order included. On the
  list \<open>[A, B]\<close> the first toggle of \<open>A\<close> removes it and the second appends it: the
  result is \<open>[B, A]\<close>.
\<close>

theorem toggle_twice_counterexample:
  "toggleFavorite \<lparr>name = js ''A'', slogan = js ''x''\<rparr>
     (toggleFavorite \<lparr>name = js ''A'', slogan = js ''x''\<rparr>
        [\<lparr>name = js ''A'', slogan = js ''x''\<rparr>, \<lparr>name = js ''B'', slogan = js ''y''\<rparr>])
   \<noteq> [\<lparr>name = js ''A'', slogan = js ''x''\<rparr>, \<lparr>name = js ''B'', slogan = js ''y''\<rparr>]"
  by (simp add: toggleFavorite_def js_def)

text \<open>
  C2, amended: when no entry of the list has the idea's name, toggling the idea twice
  restores the list, order and contents; when an entry has it, toggling twice yields the
  entries with other names, in their order, followed by the idea.
\<close>

theorem toggle_twice:
  "(\<not> isFavorite L (name a) \<longrightarrow> toggleFavorite a (toggleFavorite a L) = L)
   \<and> (isFavorite L (name a) \<longrightarrow>
        toggleFavorite a (toggleFavorite a L) = filter (\<lambda>f. name f \<noteq> name a) L @ [a])"
  by (simp add: isFavorite_iff toggle_twice_absent toggle_twice_present)

text \<open>C2, both cases of the amended statement: \<open>A\<close> toggled twice on \<open>[B]\<close> and on
  \<open>[A, B]\<close>.\<close>

theorem toggle_twice_witness:
  "\<not> isFavorite [\<lparr>name = js ''B'', slogan = js ''y''\<rparr>] (name \<lparr>name = js ''A'', slogan = js ''x''\<rparr>)
   \<and> toggleFavorite \<lparr>name = js ''A'', slogan = js ''x''\<rparr>
       (toggleFavorite \<lparr>name = js ''A'', slogan = js ''x''\<rparr> [\<lparr>name = js ''B'', slogan = js ''y''\<rparr>])
     = [\<lparr>name = js ''B'', slogan = js ''y''\<rparr>]
   \<and> isFavorite [\<lparr>name = js ''A'', slogan = js ''x''\<rparr>, \<lparr>name = js ''B'', slogan = js ''y''\<rparr>]
        (name \<lparr>name = js ''A'', slogan = js ''x''\<rparr>)
   \<and> toggleFavorite \<lparr>name = js ''A'', slogan = js ''x''\<rparr>
       (toggleFavorite \<lparr>name = js ''A'', slogan = js ''x''\<rparr>
          [\<lparr>name = js ''A'', slogan = js ''x''\<rparr>, \<lparr>name = js ''B'', slogan = js ''y''\<rparr>])
     = [\<lparr>name = js ''B'', slogan = js ''y''\<rparr>, \<lparr>name = js ''A'', slogan = js ''x''\<rparr>]"
proof -
  have absent: "\<not> isFavorite [\<lparr>name = js ''B'', slogan = js ''y''\<rparr>] (name \<lparr>name = js ''A'', slogan = js ''x''\<rparr>)"
    by (simp add: isFavorite_def js_def)
  have present: "isFavorite [\<lparr>name = js ''A'', slogan = js ''x''\<rparr>, \<lparr>name = js ''B'', slogan = js ''y''\<rparr>]
        (name \<lparr>name = js ''A'', slogan = js ''x''\<rparr>)"
    by (simp add: isFavorite_def)
  show ?thesis
    using absent present
      toggle_twice[of "[\<lparr>name = js ''B'', slogan = js ''y''\<rparr>]" "\<lparr>name = js ''A'', slogan = js ''x''\<rparr>"]
      toggle_twice[of "[\<lparr>name = js ''A'', slogan = js ''x''\<rparr>, \<lparr>name = js ''B'', slogan = js ''y''\<rparr>]"
        "\<lparr>name = js ''A'', slogan = js ''x''\<rparr>"]
    by (simp add: js_def)
qed

text \<open>
  C3: on a list with unique names, the toggle does what the specification says (it
  removes the entry with the idea's name if there is one and appends the idea at the end
  otherwise), the storage key then holds the text of the whole new list, and hydrating
  from it returns that list.
\<close>

theorem toggle_contract:
  "unique_names prev \<Longrightarrow>
     toggle_and_persist idea (prev, st)
       = (spec_toggle idea prev,
          setItem STORAGE_KEY (JSON_stringify (ideas_json (spec_toggle idea prev))) st)
     \<and> hydrate (snd (toggle_and_persist idea (prev, st))) = Inr (ideas_json (spec_toggle idea prev), [])"
proof -
  assume "unique_names prev"
  then have r: "toggleFavorite idea prev = spec_toggle idea prev" by (rule toggle_refines_spec)
  have t: "toggle_and_persist idea (prev, st)
       = (spec_toggle idea prev, persist (ideas_json (spec_toggle idea prev)) st)"
    by (simp add: toggle_and_persist_def Let_def r)
  show ?thesis unfolding t
    by (simp add: hydrate_persist_ideas) (simp add: persist_def)
qed

text \<open>C3, a run: \<open>A\<close> toggled on \<open>[A, B]\<close> leaves \<open>[B]\<close> and its text in the storage.\<close>

theorem toggle_contract_witness:
  \<open>unique_names [\<lparr>name = js ''A'', slogan = js ''x''\<rparr>, \<lparr>name = js ''B'', slogan = js ''y''\<rparr>]
   \<and> toggle_and_persist \<lparr>name = js ''A'', slogan = js ''z''\<rparr>
        ([\<lparr>name = js ''A'', slogan = js ''x''\<rparr>, \<lparr>name = js ''B'', slogan = js ''y''\<rparr>], empty_storage)
      = ([\<lparr>name = js ''B'', slogan = js ''y''\<rparr>],
         setItem STORAGE_KEY (js ''[{"name":"B","slogan":"y"}]'') empty_storage)\<close>
proof -
  have h: "unique_names [\<lparr>name = js ''A'', slogan = js ''x''\<rparr>, \<lparr>name = js ''B'', slogan = js ''y''\<rparr>]"
    by (simp add: unique_names_def js_def)
  have s: "spec_toggle \<lparr>name = js ''A'', slogan = js ''z''\<rparr>
        [\<lparr>name = js ''A'', slogan = js ''x''\<rparr>, \<lparr>name = js ''B'', slogan = js ''y''\<rparr>]
      = [\<lparr>name = js ''B'', slogan = js ''y''\<rparr>]"
    by (simp add: spec_toggle_def js_def)
  have t: \<open>JSON_stringify (ideas_json [\<lparr>name = js ''B'', slogan = js ''y''\<rparr>]) = js ''[{"name":"B","slogan":"y"}]''\<close>
    by (simp add: ideas_json_def idea_json_def quote_def quote_unit_def js_def is_lead_def is_trail_def)
  show ?thesis
    using h toggle_contract[OF h, of "\<lparr>name = js ''A'', slogan = js ''z''\<rparr>" empty_storage]
    unfolding s t by simp
qed

text \<open>
  C10: when the idea's name occurs in the list, once or several times, the toggle returns
  exactly the entries with another name, in their order.
\<close>

theorem toggleFavorite_removes_every_match:
  "isFavorite prev (name idea) \<Longrightarrow>
   toggleFavorite idea prev = filter (\<lambda>f. name f \<noteq> name idea) prev"
  by (simp add: isFavorite_iff toggleFavorite_present)

text \<open>C10, a run on a list that holds the name \<open>A\<close> twice: both entries go.\<close>

theorem toggleFavorite_removes_every_match_witness:
  "isFavorite [\<lparr>name = js ''A'', slogan = js ''x''\<rparr>, \<lparr>name = js ''B'', slogan = js ''y''\<rparr>,
               \<lparr>name = js ''A'', slogan = js ''w''\<rparr>] (name \<lparr>name = js ''A'', slogan = js ''z''\<rparr>)
   \<and> toggleFavorite \<lparr>name = js ''A'', slogan = js ''z''\<rparr>
        [\<lparr>name = js ''A'', slogan = js ''x''\<rparr>, \<lparr>name = js ''B'', slogan = js ''y''\<rparr>,
         \<lparr>name = js ''A'', slogan = js ''w''\<rparr>]
      = [\<lparr>name = js ''B'', slogan = js ''y''\<rparr>]"
proof -
  have h: "isFavorite [\<lparr>name = js ''A'', slogan = js ''x''\<rparr>, \<lparr>name = js ''B'', slogan = js ''y''\<rparr>,
               \<lparr>name = js ''A'', slogan = js ''w''\<rparr>] (name \<lparr>name = js ''A'', slogan = js ''z''\<rparr>)"
    by (simp add: isFavorite_def)
  show ?thesis
    using h toggleFavorite_removes_every_match[OF h] by (simp add: js_def)
qed

subsection \<open>Hydrate and persist\<close>

text \<open>
  C4: for every list of ideas, hydrating from a storage to which persist has written the
  list returns the run-time value of that same list, with nothing logged.
\<close>

theorem persist_hydrate_roundtrip:
  "hydrate (persist (ideas_json L) st) = Inr (ideas_json L, [])"
  by (rule hydrate_persist_ideas)

text \<open>
  C5, as stated: whenever the stored value fails to parse, hydrate returns the empty list
  and logs a diagnostic. The empty string fails to parse, but hydrate treats it like a
  missing key and logs nothing.
\<close>

theorem hydrate_empty_string_counterexample:
  "JSON_parse [] = Inl SyntaxError
   \<and> hydrate (setItem STORAGE_KEY [] empty_storage) = Inr (initial_favorites, [])"
  using hydrate_empty_string[OF getItem_setItem] by (simp add: JSON_parse_empty)

text \<open>
  C5, amended: hydrate returns the empty list and logs nothing when the key is missing or
  the stored value is the empty string; it returns the empty list and logs one diagnostic
  when the stored value is a non-empty string that fails to parse. In both cases nothing
  is raised.
\<close>

theorem hydrate_failure:
  "initial_favorites = JArr []
   \<and> (getItem st STORAGE_KEY = None \<or> getItem st STORAGE_KEY = Some [] \<longrightarrow>
        hydrate st = Inr (initial_favorites, []))
   \<and> (getItem st STORAGE_KEY = Some saved \<and> saved \<noteq> [] \<and> JSON_parse saved = Inl e \<longrightarrow>
        hydrate st = Inr (initial_favorites, [ConsoleError [js ''Failed to parse favorites''] e]))"
  using hydrate_missing hydrate_empty_string hydrate_unparsable
  by (auto simp: initial_favorites_def)

text \<open>C5, two runs: an empty storage, and the corrupted string of the specification.\<close>

theorem hydrate_failure_witness:
  "getItem empty_storage STORAGE_KEY = None
   \<and> hydrate empty_storage = Inr (JArr [], [])
   \<and> getItem (setItem STORAGE_KEY (js ''{not json'') empty_storage) STORAGE_KEY = Some (js ''{not json'')
   \<and> js ''{not json'' \<noteq> []
   \<and> JSON_parse (js ''{not json'') = Inl SyntaxError
   \<and> hydrate (setItem STORAGE_KEY (js ''{not json'') empty_storage)
       = Inr (JArr [], [ConsoleError [js ''Failed to parse favorites''] SyntaxError])"
proof -
  have m: "getItem empty_storage STORAGE_KEY = None"
    by (simp add: getItem_def empty_storage_def)
  have g: "getItem (setItem STORAGE_KEY (js ''{not json'') empty_storage) STORAGE_KEY = Some (js ''{not json'')"
    by (rule getItem_setItem)
  have n: "js ''{not json'' \<noteq> []" by (simp add: js_def)
  have p: "JSON_parse (js ''{not json'') = Inl SyntaxError"
    by (simp add: JSON_parse_def js_def skip_ws_def is_json_ws_def)
  show ?thesis
    using m g n p
      hydrate_failure[of empty_storage "js ''{not json''" SyntaxError]
      hydrate_failure[of "setItem STORAGE_KEY (js ''{not json'') empty_storage" "js ''{not json''" SyntaxError]
    by simp
qed

subsection \<open>Generating ideas\<close>

text \<open>
  C6: when every character of the industry string is white space (the empty string
  included), the string is empty after trimming and \<open>generateIdeas\<close> returns the state
  it was given, sends no prompt and logs nothing, whatever the other fields and the
  service are.
\<close>

theorem generate_blank_industry_is_noop:
  "list_all is_js_space (industry s) \<Longrightarrow>
   trim (industry s) = [] \<and> generateIdeas service s = Inr (s, [], [])"
  by (simp add: trim_blank generate_blank)

text \<open>C6, a run with the industry string space, tab, space.\<close>

theorem generate_blank_industry_is_noop_witness:
  "list_all is_js_space (industry (initial_state\<lparr>industry := [0x20, 0x09, 0x20]\<rparr>))
   \<and> generateIdeas (canned_service (js ''[]'')) (initial_state\<lparr>industry := [0x20, 0x09, 0x20]\<rparr>)
       = Inr (initial_state\<lparr>industry := [0x20, 0x09, 0x20]\<rparr>, [], [])"
proof -
  have h: "list_all is_js_space (industry (initial_state\<lparr>industry := [0x20, 0x09, 0x20]\<rparr>))"
    by (simp add: is_js_space_def)
  show ?thesis
    using h generate_blank_industry_is_noop[OF h, of "canned_service (js ''[]'')"] by simp
qed

text \<open>
  C7: when the industry string is not empty after trimming, \<open>generateIdeas\<close> sends
  exactly one prompt; when the service answers with a text that parses, the ideas of the
  state afterwards are the parsed value, no error is set and nothing is logged; in
  particular the text of a list of ideas leaves exactly that list, in its order.
\<close>

theorem generate_stores_parsed_payload:
  "trim (industry s) \<noteq> [] \<Longrightarrow>
   \<exists>s' log. generateIdeas service s = Inr (s', [prompt_of s], log)
     \<and> (\<forall>text v. service (prompt_of s) = Responds (Some text) \<and> JSON_parse (trim text) = Inr v
           \<longrightarrow> ideas s' = v \<and> error s' = None \<and> log = [])
     \<and> (\<forall>L. service (prompt_of s) = Responds (Some (JSON_stringify (ideas_json L)))
           \<longrightarrow> ideas s' = ideas_json L)"
proof -
  assume nb: "trim (industry s) \<noteq> []"
  have parsed: "ideas s' = v \<and> error s' = None \<and> log = []"
    if "generateIdeas service s = Inr (s', calls, log)"
      "service (prompt_of s) = Responds (Some payload)" "JSON_parse (trim payload) = Inr v"
    for s' calls log payload v
  proof -
    have "request_ideas service (prompt_of s) = Inr v"
      using that(2) that(3) by (rule request_ideas_parsed[of service "prompt_of s" payload v])
    from generate_success[OF nb this] that(1) show ?thesis by auto
  qed
  have listed: "ideas s' = ideas_json L"
    if "generateIdeas service s = Inr (s', calls, log)"
      "service (prompt_of s) = Responds (Some (JSON_stringify (ideas_json L)))"
    for s' calls log L
    using parsed[OF that] by (simp add: trim_stringify_ideas JSON_parse_stringify plain_ideas_json)
  show ?thesis
  proof (cases rule: generate_cases[of s service])
    case 1
    with nb show ?thesis by simp
  next
    case (2 v)
    then show ?thesis using parsed listed by blast
  next
    case (3 e)
    then show ?thesis using parsed listed by blast
  qed
qed

text \<open>C7, the scenario of the specification: industry \<open>AI Healthcare\<close>, and a service that
  answers with the one idea \<open>Vitalis\<close>.\<close>

theorem generate_stores_parsed_payload_witness:
  \<open>trim (industry (initial_state\<lparr>industry := js ''AI Healthcare''\<rparr>)) \<noteq> []
   \<and> (\<exists>s' log.
        generateIdeas (canned_service (js ''[{"name":"Vitalis","slogan":"Health, Amplified"}]''))
            (initial_state\<lparr>industry := js ''AI Healthcare''\<rparr>)
          = Inr (s', [prompt_of (initial_state\<lparr>industry := js ''AI Healthcare''\<rparr>)], log)
        \<and> ideas s' = ideas_json [\<lparr>name = js ''Vitalis'', slogan = js ''Health, Amplified''\<rparr>])\<close>
proof -
  have h: "trim (industry (initial_state\<lparr>industry := js ''AI Healthcare''\<rparr>)) \<noteq> []"
    by (simp add: trim_def js_def is_js_space_def)
  have t: \<open>js ''[{"name":"Vitalis","slogan":"Health, Amplified"}]''
      = JSON_stringify (ideas_json [\<lparr>name = js ''Vitalis'', slogan = js ''Health, Amplified''\<rparr>])\<close>
    by (simp add: ideas_json_def idea_json_def quote_def quote_unit_def js_def is_lead_def is_trail_def)
  show ?thesis
    using h generate_stores_parsed_payload[OF h,
        of \<open>canned_service (js ''[{"name":"Vitalis","slogan":"Health, Amplified"}]'')\<close>]
    unfolding t by (auto simp: canned_service_def)
qed

text \<open>
  C8, as stated: a payload that does not have the expected shape sets the error message.
  The payload \<open>{}\<close> parses, is not an array of ideas, and is stored as the ideas; no
  error is set.
\<close>

theorem generate_wrong_shape_counterexample:
  "JSON_parse (trim (js ''{}'')) = Inr (JObj [])
   \<and> \<not> matches_response_schema (JObj [])
   \<and> generateIdeas (canned_service (js ''{}'')) (initial_state\<lparr>industry := js ''AI''\<rparr>)
       = Inr (initial_state\<lparr>industry := js ''AI'', ideas := JObj []\<rparr>,
              [prompt_of (initial_state\<lparr>industry := js ''AI''\<rparr>)], [])
   \<and> error (initial_state\<lparr>industry := js ''AI'', ideas := JObj []\<rparr>) = None"
proof -
  have t: "trim (js ''{}'') = js ''{}''" by (simp add: trim_def js_def is_js_space_def)
  have p: "JSON_parse (js ''{}'') = Inr (JObj [])"
    by (simp add: JSON_parse_def js_def skip_ws_def is_json_ws_def)
  have n: "trim (industry (initial_state\<lparr>industry := js ''AI''\<rparr>)) \<noteq> []"
    by (simp add: trim_def js_def is_js_space_def)
  have r: "request_ideas (canned_service (js ''{}'')) (prompt_of (initial_state\<lparr>industry := js ''AI''\<rparr>))
      = Inr (JObj [])"
    by (rule request_ideas_parsed[of _ _ "js ''{}''"]) (simp_all add: canned_service_def t p)
  show ?thesis
    using generate_success[OF n r]
    by (simp add: t p matches_response_schema_def initial_state_def)
qed

text \<open>
  C8, amended: \<open>generateIdeas\<close> never raises; and when the industry string is not empty
  after trimming and the service call fails, or the response has no text, or its text is
  empty after trimming, or its text fails to parse as JSON, the state afterwards carries
  the one fixed error message, the ideas are unchanged and the failure is logged.
\<close>

theorem generate_failure_single_message:
  "(\<exists>r. generateIdeas service s = Inr r)
   \<and> (trim (industry s) \<noteq> []
        \<and> (service (prompt_of s) = Throws e
           \<or> service (prompt_of s) = Responds None
           \<or> service (prompt_of s) = Responds (Some payload)
               \<and> (trim payload = [] \<or> JSON_parse (trim payload) = Inl e'))
      \<longrightarrow> (\<exists>err. generateIdeas service s =
             Inr (s\<lparr>loading := False, error := Some GENERATION_ERROR, copiedIndex := None,
                    view := Generate\<rparr>,
                  [prompt_of s], [ConsoleError [] err])))"
proof (intro conjI impI)
  show "\<exists>r. generateIdeas service s = Inr r"
    by (cases rule: generate_cases[of s service]) blast+
next
  assume a: "trim (industry s) \<noteq> []
        \<and> (service (prompt_of s) = Throws e
           \<or> service (prompt_of s) = Responds None
           \<or> service (prompt_of s) = Responds (Some payload)
               \<and> (trim payload = [] \<or> JSON_parse (trim payload) = Inl e'))"
  then have "\<exists>err. request_ideas service (prompt_of s) = Inl err"
    by (auto simp: request_ideas_def)
  then obtain err where "request_ideas service (prompt_of s) = Inl err" ..
  with a have "generateIdeas service s =
             Inr (s\<lparr>loading := False, error := Some GENERATION_ERROR, copiedIndex := None,
                    view := Generate\<rparr>,
                  [prompt_of s], [ConsoleError [] err])"
    by (intro generate_failure) simp_all
  then show "\<exists>err. generateIdeas service s =
             Inr (s\<lparr>loading := False, error := Some GENERATION_ERROR, copiedIndex := None,
                    view := Generate\<rparr>,
                  [prompt_of s], [ConsoleError [] err])" ..
qed

text \<open>C8, three runs: a service that rejects the call, one that answers without text,
  and one that answers \<open>{not json\<close>.\<close>

theorem generate_failure_single_message_witness:
  "trim (industry (initial_state\<lparr>industry := js ''AI''\<rparr>)) \<noteq> []
   \<and> (\<exists>err. generateIdeas rejecting_service (initial_state\<lparr>industry := js ''AI''\<rparr>)
         = Inr (initial_state\<lparr>industry := js ''AI'', error := Some GENERATION_ERROR\<rparr>,
                [prompt_of (initial_state\<lparr>industry := js ''AI''\<rparr>)], [ConsoleError [] err]))
   \<and> (\<exists>err. generateIdeas silent_service (initial_state\<lparr>industry := js ''AI''\<rparr>)
         = Inr (initial_state\<lparr>industry := js ''AI'', error := Some GENERATION_ERROR\<rparr>,
                [prompt_of (initial_state\<lparr>industry := js ''AI''\<rparr>)], [ConsoleError [] err]))
   \<and> JSON_parse (trim (js ''{not json'')) = Inl SyntaxError
   \<and> (\<exists>err. generateIdeas (canned_service (js ''{not json'')) (initial_state\<lparr>industry := js ''AI''\<rparr>)
         = Inr (initial_state\<lparr>industry := js ''AI'', error := Some GENERATION_ERROR\<rparr>,
                [prompt_of (initial_state\<lparr>industry := js ''AI''\<rparr>)], [ConsoleError [] err]))"
proof -
  have n: "trim (industry (initial_state\<lparr>industry := js ''AI''\<rparr>)) \<noteq> []"
    by (simp add: trim_def js_def is_js_space_def)
  have t: "trim (js ''{not json'') = js ''{not json''" by (simp add: trim_def js_def is_js_space_def)
  have p: "JSON_parse (trim (js ''{not json'')) = Inl SyntaxError"
    unfolding t by (simp add: JSON_parse_def js_def skip_ws_def is_json_ws_def)
  have u: "initial_state\<lparr>industry := js ''AI'', loading := False, error := Some GENERATION_ERROR,
             copiedIndex := None, view := Generate\<rparr>
         = initial_state\<lparr>industry := js ''AI'', error := Some GENERATION_ERROR\<rparr>"
    by (simp add: initial_state_def)
  show ?thesis
    using n p
      generate_failure_single_message[of rejecting_service "initial_state\<lparr>industry := js ''AI''\<rparr>"
        "ServiceFailure (js ''quota exceeded'')" "[]" SyntaxError]
      generate_failure_single_message[of silent_service "initial_state\<lparr>industry := js ''AI''\<rparr>"
        SyntaxError "[]" SyntaxError]
      generate_failure_single_message[of "canned_service (js ''{not json'')"
        "initial_state\<lparr>industry := js ''AI''\<rparr>" SyntaxError "js ''{not json''" SyntaxError]
    unfolding u
    by (simp add: rejecting_service_def silent_service_def canned_service_def)
qed

text \<open>
  C9: whatever the state and the service, \<open>generateIdeas\<close> returns a state whose favorites
  are the favorites it was given (it has no access to the storage); the same holds for
  its two halves on their own, whatever the state at which the call settles and whatever
  the request produced.
\<close>

theorem generate_leaves_favorites:
  "(\<exists>s' calls log. generateIdeas service s = Inr (s', calls, log) \<and> favorites s' = favorites s)
   \<and> favorites (start_generation s) = favorites s
   \<and> (\<exists>s' log. finish_generation outcome t = Inr (s', log) \<and> favorites s' = favorites t)"
proof (intro conjI)
  show "\<exists>s' calls log. generateIdeas service s = Inr (s', calls, log) \<and> favorites s' = favorites s"
    by (cases rule: generate_cases[of s service]) auto
next
  show "favorites (start_generation s) = favorites s" by (simp add: start_generation_def)
next
  show "\<exists>s' log. finish_generation outcome t = Inr (s', log) \<and> favorites s' = favorites t"
    by (cases outcome) (simp_all add: finish_generation_cases)
qed

end
